theory Spec2Isabelle
  imports Main "HOL-Library.AList" "HOL-Library.Multiset"
begin

section \<open>Shared vocabulary: errors, HTTP, map iteration\<close>

text \<open>
  Go errors are values. The detector and the API server produce three kinds: an error
  from building a request (\<open>http.NewRequest\<close>), an error from the transport
  (\<open>client.Do\<close>) and the detector's own "unexpected HTTP response status" error, which
  carries the status code.
\<close>

datatype error =
    RequestError string
  | TransportError string
  | UnexpectedStatus int

text \<open>
  A run-time panic of the Go program (a slice bound out of range, a nil pointer
  dereference) is a value of its own, so that every panic of the source is a branch of
  the model.
\<close>

datatype panic = SliceOutOfRange | NilDereference

text \<open>
  An outgoing HTTP request as the code builds it: method, URL, the body handed to
  \<open>http.NewRequest\<close> (\<open>None\<close> is Go's \<open>nil\<close> body) and the headers set on it,
  in the order of the \<open>Header.Set\<close> calls.
\<close>

record 'b http_request =
  req_method :: string
  req_url :: string
  req_body :: "'b option"
  req_headers :: "(string \<times> string) list"

text \<open>
  The network is the environment: \<open>new_request\<close> says whether \<open>http.NewRequest\<close>
  accepts a method and URL (\<open>Some e\<close> is its error), \<open>do\<close> is what \<open>client.Do\<close>
  returns for a request, an error or the status code of the response.
\<close>

record 'b net =
  new_request :: "string \<Rightarrow> string \<Rightarrow> error option"
  do :: "'b http_request \<Rightarrow> error + int"

text \<open>
  Go iterates over a map in an unspecified order. The order is an input of the model: a
  schedule of numbers picks, at each step, which of the remaining keys comes next. An
  exhausted schedule takes the remaining keys as they stand. Every schedule yields a
  permutation of the keys, and every permutation is the result of some schedule.
\<close>

fun range_map :: "nat list \<Rightarrow> 'a list \<Rightarrow> 'a list" where
  "range_map ps [] = []"
| "range_map [] (x # xs) = x # xs"
| "range_map (p # ps) (x # xs) =
     (let i = p mod length (x # xs)
      in (x # xs) ! i # range_map ps (take i (x # xs) @ drop (Suc i) (x # xs)))"

section \<open>The Exa detector (pkg/detectors/exa/exa.go)\<close>

subsection \<open>The key pattern\<close>

text \<open>
  \<open>keyPat\<close> is the regular expression
  \<^verbatim>\<open>\b([a-f0-9]{8}-[a-f0-9]{4}-[a-f0-9]{4}-[a-f0-9]{4}-[a-f0-9]{12})\b\<close>.
  The character class \<open>[a-f0-9]\<close> and the ASCII word characters of \<open>\b\<close>
  (\<open>[0-9A-Za-z_]\<close>) are predicates on bytes. A byte outside ASCII is in neither, so
  matching byte by byte agrees with matching code point by code point.
\<close>

definition is_hex :: "char \<Rightarrow> bool" where
  "is_hex c = (let n = (of_char c :: nat) in (97 \<le> n \<and> n \<le> 102) \<or> (48 \<le> n \<and> n \<le> 57))"

definition is_word :: "char \<Rightarrow> bool" where
  "is_word c =
     (let n = (of_char c :: nat)
      in (48 \<le> n \<and> n \<le> 57) \<or> (65 \<le> n \<and> n \<le> 90) \<or> (97 \<le> n \<and> n \<le> 122) \<or> n = 95)"

text \<open>\<open>hex_run n cs\<close>: the first \<open>n\<close> characters of \<open>cs\<close> exist and are all in
  \<open>[a-f0-9]\<close>; the result is the rest of the input after them.\<close>

fun hex_run :: "nat \<Rightarrow> string \<Rightarrow> string option" where
  "hex_run 0 cs = Some cs"
| "hex_run (Suc n) [] = None"
| "hex_run (Suc n) (c # cs) = (if is_hex c then hex_run n cs else None)"

fun dash :: "string \<Rightarrow> string option" where
  "dash [] = None"
| "dash (c # cs) = (if c = CHR ''-'' then Some cs else None)"

text \<open>The body of the pattern, the five groups separated by dashes, matched at the head
  of the input; the result is the rest of the input after the 36 characters.\<close>

definition key_body :: "string \<Rightarrow> string option" where
  "key_body cs =
     (case hex_run 8 cs of None \<Rightarrow> None | Some r1 \<Rightarrow>
      case dash r1 of None \<Rightarrow> None | Some r2 \<Rightarrow>
      case hex_run 4 r2 of None \<Rightarrow> None | Some r3 \<Rightarrow>
      case dash r3 of None \<Rightarrow> None | Some r4 \<Rightarrow>
      case hex_run 4 r4 of None \<Rightarrow> None | Some r5 \<Rightarrow>
      case dash r5 of None \<Rightarrow> None | Some r6 \<Rightarrow>
      case hex_run 4 r6 of None \<Rightarrow> None | Some r7 \<Rightarrow>
      case dash r7 of None \<Rightarrow> None | Some r8 \<Rightarrow>
      hex_run 12 r8)"

text \<open>
  \<open>\b\<close> holds between two positions when exactly one of the neighbouring characters is
  a word character; the start and the end of the text count as non-word. \<open>prev\<close> is the
  character before the position, if any.
\<close>

definition word_before :: "char option \<Rightarrow> bool" where
  "word_before prev = (case prev of None \<Rightarrow> False | Some c \<Rightarrow> is_word c)"

definition word_after :: "string \<Rightarrow> bool" where
  "word_after cs = (case cs of [] \<Rightarrow> False | c # _ \<Rightarrow> is_word c)"

definition boundary :: "char option \<Rightarrow> string \<Rightarrow> bool" where
  "boundary prev cs = (word_before prev \<noteq> word_after cs)"

text \<open>A match of the whole pattern at the head of \<open>cs\<close>, with \<open>prev\<close> the character
  before it: the matched text (capture group 1, here also the whole match).\<close>

definition match_at :: "char option \<Rightarrow> string \<Rightarrow> string option" where
  "match_at prev cs =
     (if boundary prev cs then
        (case key_body cs of
           None \<Rightarrow> None
         | Some rest \<Rightarrow>
             let m = take (length cs - length rest) cs
             in if boundary (Some (last m)) rest then Some m else None)
      else None)"

text \<open>
  \<open>FindAllStringSubmatch(dataStr, -1)\<close>: all leftmost, non-overlapping matches, from
  left to right. The scan carries the previous character and the number of characters
  still to skip after a match (the search resumes where the match ended).
\<close>

fun find_all :: "char option \<Rightarrow> nat \<Rightarrow> string \<Rightarrow> string list" where
  "find_all prev k [] = []"
| "find_all prev (Suc k) (c # cs) = find_all (Some c) k cs"
| "find_all prev 0 (c # cs) =
     (case match_at prev (c # cs) of
        None \<Rightarrow> find_all (Some c) 0 cs
      | Some m \<Rightarrow> m # find_all (Some c) (length m - 1) cs)"

definition FindAllStringSubmatch :: "string \<Rightarrow> string list" where
  "FindAllStringSubmatch dataStr = find_all None 0 dataStr"

subsection \<open>Results and verification\<close>

datatype DetectorType = DetectorType_Exa | DetectorType_Other string

text \<open>
  \<open>detectors.Result\<close> with the fields the detector and the API server read or write.
  \<open>Verified\<close> is a Go \<open>bool\<close> (zero value \<open>false\<close>); \<open>verificationError\<close> is set by
  \<open>SetVerificationError\<close>.
\<close>

record Result =
  DetectorType :: DetectorType
  DetectorName :: string
  Raw :: string
  Redacted :: string
  Verified :: bool
  verificationError :: "error option"
  ExtraData :: "(string \<times> string) list"
  SourceMetadata :: "string option"

text \<open>A Go slice expression \<open>s[:n]\<close> panics when \<open>n\<close> exceeds the length.\<close>

definition slice_to :: "string \<Rightarrow> nat \<Rightarrow> panic + string" where
  "slice_to s n = (if n \<le> length s then Inr (take n s) else Inl SliceOutOfRange)"

definition exa_url :: string where
  "exa_url = ''https://api.exa.ai/search?query=test&numResults=1''"

text \<open>The request \<open>verifyToken\<close> builds: a GET of the fixed URL with no body and the
  candidate in the \<open>x-api-key\<close> header.\<close>

definition exa_request :: "string \<Rightarrow> 'b http_request" where
  "exa_request token =
     \<lparr>req_method = ''GET'', req_url = exa_url, req_body = None,
      req_headers = [(''x-api-key'', token)]\<rparr>"

definition verifyToken :: "'b net \<Rightarrow> string \<Rightarrow> bool \<times> error option" where
  "verifyToken client token =
     (case new_request client ''GET'' exa_url of
        Some err \<Rightarrow> (False, Some err)
      | None \<Rightarrow>
          let req = exa_request token
          in (case do client req of
                Inl err \<Rightarrow> (False, Some err)
              | Inr StatusCode \<Rightarrow>
                  if StatusCode = 200 then (True, None)
                  else if StatusCode = 401 \<or> StatusCode = 403 then (False, None)
                  else (False, Some (UnexpectedStatus StatusCode))))"

text \<open>The body of the loop over \<open>uniqueMatches\<close>: one Result for one token.\<close>

definition exa_result :: "'b net \<Rightarrow> bool \<Rightarrow> string \<Rightarrow> panic + Result" where
  "exa_result client verify token =
     (case slice_to token 8 of
        Inl p \<Rightarrow> Inl p
      | Inr prefix \<Rightarrow>
          let s1 = \<lparr>DetectorType = DetectorType_Exa, DetectorName = [], Raw = token,
                    Redacted = prefix @ ''...'', Verified = False,
                    verificationError = None, ExtraData = [], SourceMetadata = None\<rparr>
          in if verify then
               (let (verified, verificationErr) = verifyToken client token
                in Inr (s1\<lparr>Verified := verified, verificationError := verificationErr\<rparr>))
             else Inr s1)"

fun exa_results :: "'b net \<Rightarrow> bool \<Rightarrow> string list \<Rightarrow> panic + Result list" where
  "exa_results client verify [] = Inr []"
| "exa_results client verify (token # tokens) =
     (case exa_result client verify token of
        Inl p \<Rightarrow> Inl p
      | Inr s1 \<Rightarrow>
          (case exa_results client verify tokens of
             Inl p \<Rightarrow> Inl p
           | Inr results \<Rightarrow> Inr (s1 # results)))"

text \<open>
  \<open>FromData\<close>: the matches are put into the map \<open>uniqueMatches\<close> (its keys are the
  distinct matches), the map is iterated in the order the schedule \<open>order\<close> picks, and
  each key yields one Result. The returned error of the source is always \<open>nil\<close>.
\<close>

definition uniqueMatches :: "string \<Rightarrow> string list" where
  "uniqueMatches dataStr = remdups (FindAllStringSubmatch dataStr)"

definition FromData :: "'b net \<Rightarrow> nat list \<Rightarrow> bool \<Rightarrow> string \<Rightarrow> panic + Result list" where
  "FromData client order verify data =
     exa_results client verify (range_map order (uniqueMatches data))"

text \<open>A mock endpoint for tests: every request is accepted and answered with the given
  status code.\<close>

definition mock_client :: "int \<Rightarrow> 'b net" where
  "mock_client status = \<lparr>new_request = (\<lambda>m u. None), do = (\<lambda>r. Inr status)\<rparr>"

definition failing_client :: "string \<Rightarrow> 'b net" where
  "failing_client msg =
     \<lparr>new_request = (\<lambda>m u. None), do = (\<lambda>r. Inl (TransportError msg))\<rparr>"

text \<open>The shape of a key: five groups of 8, 4, 4, 4 and 12 characters of \<open>[a-f0-9]\<close>,
  separated by dashes.\<close>

definition is_group :: "nat \<Rightarrow> string \<Rightarrow> bool" where
  "is_group n g = (length g = n \<and> list_all is_hex g)"

definition key_shape :: "string \<Rightarrow> bool" where
  "key_shape m =
     (length m = 36 \<and>
      is_group 8 (take 8 m) \<and> m ! 8 = CHR ''-'' \<and>
      is_group 4 (take 4 (drop 9 m)) \<and> m ! 13 = CHR ''-'' \<and>
      is_group 4 (take 4 (drop 14 m)) \<and> m ! 18 = CHR ''-'' \<and>
      is_group 4 (take 4 (drop 19 m)) \<and> m ! 23 = CHR ''-'' \<and>
      is_group 12 (drop 24 m))"

text \<open>An input with the same key twice and a second key once.\<close>

definition sample_data :: string where
  "sample_data =
     ''exa_api_key=12345678-abcd-abcd-abcd-123456789abc, 12345678-abcd-abcd-abcd-123456789abc; 0fedcba9-0000-1111-2222-333344445555''"

section \<open>The API server (pkg/api/server.go)\<close>

subsection \<open>JSON\<close>

text \<open>
  What \<open>encoding/json\<close> writes, as a value: strings, numbers, booleans, arrays and
  objects (a list of keys with their values, in the order of the struct's fields).
\<close>

datatype json =
    JString string
  | JInt int
  | JBool bool
  | JArray "json list"
  | JObject "(string \<times> json) list"

text \<open>A string field tagged \<open>omitempty\<close> is left out when it is empty.\<close>

definition omitempty :: "string \<Rightarrow> string \<Rightarrow> (string \<times> json) list" where
  "omitempty key v = (if v = [] then [] else [(key, JString v)])"

subsection \<open>The data model\<close>

record ScanRequest =
  RepoURL :: string
  WebhookURL :: string
  Verify :: bool
  IncludeOnly :: "string list"

record ScanResponse =
  resp_ScanID :: string
  resp_Status :: string
  Message :: string
  CreatedAt :: string

text \<open>
  \<open>SecretResult\<close>: the fields are those of the source, prefixed with \<open>s_\<close> where
  \<open>detectors.Result\<close> has a field of the same name.
\<close>

record SecretResult =
  s_DetectorType :: string
  s_DetectorName :: string
  s_Verified :: bool
  s_Raw :: string
  s_Redacted :: string
  s_ExtraData :: "(string \<times> string) list"
  SourceName :: string
  SourceType :: string

text \<open>
  \<open>ScanResult\<close>, the job record. \<open>VerifiedCount\<close> is the source's field \<open>Verified\<close>
  (an \<open>int\<close>), \<open>scan_RepoURL\<close> its field \<open>RepoURL\<close>.
\<close>

record ScanResult =
  ScanID :: string
  Status :: string
  scan_RepoURL :: string
  StartedAt :: string
  CompletedAt :: string
  TotalSecrets :: int
  VerifiedCount :: int
  Unverified :: int
  Secrets :: "SecretResult list"
  Error :: string

record WebhookPayload =
  Event :: string
  payload_ScanResult :: ScanResult
  Timestamp :: string

subsection \<open>Serialisation, by the struct tags\<close>

text \<open>The keys of a struct come in the order of its fields; the entries of the map
  \<open>ExtraData\<close> are taken in the order of the model's list (\<open>encoding/json\<close> sorts
  them by key).\<close>

definition SecretResult_fields :: "SecretResult \<Rightarrow> (string \<times> json) list" where
  "SecretResult_fields s =
     [(''detector_type'', JString (s_DetectorType s)),
      (''detector_name'', JString (s_DetectorName s)),
      (''verified'', JBool (s_Verified s))]
     @ omitempty ''raw'' (s_Raw s)
     @ [(''redacted'', JString (s_Redacted s))]
     @ (if s_ExtraData s = [] then []
        else [(''extra_data'', JObject (map (\<lambda>(k, v). (k, JString v)) (s_ExtraData s)))])
     @ [(''source_name'', JString (SourceName s)),
        (''source_type'', JString (SourceType s))]"

definition SecretResult_json :: "SecretResult \<Rightarrow> json" where
  "SecretResult_json s = JObject (SecretResult_fields s)"

definition ScanResult_json :: "ScanResult \<Rightarrow> json" where
  "ScanResult_json r =
     JObject
      ([(''scan_id'', JString (ScanID r)),
        (''status'', JString (Status r)),
        (''repo_url'', JString (scan_RepoURL r)),
        (''started_at'', JString (StartedAt r))]
       @ omitempty ''completed_at'' (CompletedAt r)
       @ [(''total_secrets'', JInt (TotalSecrets r)),
          (''verified'', JInt (VerifiedCount r)),
          (''unverified'', JInt (Unverified r))]
       @ (if Secrets r = [] then []
          else [(''secrets'', JArray (map SecretResult_json (Secrets r)))])
       @ omitempty ''error'' (Error r))"

definition ScanResponse_json :: "ScanResponse \<Rightarrow> json" where
  "ScanResponse_json r =
     JObject
      [(''scan_id'', JString (resp_ScanID r)),
       (''status'', JString (resp_Status r)),
       (''message'', JString (Message r)),
       (''created_at'', JString (CreatedAt r))]"

definition WebhookPayload_json :: "WebhookPayload \<Rightarrow> json" where
  "WebhookPayload_json p =
     JObject
      [(''event'', JString (Event p)),
       (''scan_result'', ScanResult_json (payload_ScanResult p)),
       (''timestamp'', JString (Timestamp p))]"

subsection \<open>The server state and the HTTP boundary\<close>

text \<open>
  The registry \<open>scans\<close> is a Go map from identifiers to pointers. The pointers are
  addresses into \<open>heap\<close>, the \<open>ScanResult\<close> objects allocated so far; a job is mutated
  through its pointer. \<open>posted\<close> is the log of the requests handed to
  \<open>webhookClient.Do\<close>, in order: the server's only effect on the outside besides its
  responses. The \<open>engine\<close> field is not read by any handler and is left out; the
  mutex \<open>scansMutex\<close> is modelled with the concurrent runs below.
\<close>

record Server =
  heap :: "ScanResult list"
  scans :: "(string \<times> nat) list"
  posted :: "json http_request list"

definition NewServer :: Server where
  "NewServer = \<lparr>heap = [], scans = [], posted = []\<rparr>"

text \<open>
  An incoming request: its method, what decoding its body as a \<open>ScanRequest\<close> gives
  (\<open>Inl\<close> the decoder's error), and its query parameters.
\<close>

record request =
  r_method :: string
  r_body :: "string + ScanRequest"
  r_query :: "(string \<times> string) list"

datatype body = Text string | Json json

record response =
  code :: int
  headers :: "(string \<times> string) list"
  body :: body

text \<open>\<open>http.Error\<close>: a plain-text reply with the given status code, the message
  followed by a newline.\<close>

definition http_Error :: "string \<Rightarrow> int \<Rightarrow> response" where
  "http_Error msg c =
     \<lparr>code = c,
      headers = [(''Content-Type'', ''text/plain; charset=utf-8''),
                 (''X-Content-Type-Options'', ''nosniff'')],
      body = Text (msg @ [CHR 0x0A])\<rparr>"

definition json_reply :: "int \<Rightarrow> json \<Rightarrow> response" where
  "json_reply c j =
     \<lparr>code = c, headers = [(''Content-Type'', ''application/json'')], body = Json j\<rparr>"

text \<open>\<open>r.URL.Query().Get(key)\<close>: the value of the parameter, the empty string when it
  is absent.\<close>

definition query_get :: "(string \<times> string) list \<Rightarrow> string \<Rightarrow> string" where
  "query_get q key = (case map_of q key of None \<Rightarrow> [] | Some v \<Rightarrow> v)"

subsection \<open>The handlers\<close>

text \<open>
  \<open>HandleScan\<close>. The identifier \<open>uuid.New().String()\<close> and the time
  \<open>time.Now().UTC().Format(time.RFC3339)\<close> come from outside and are inputs. The result
  is the response, the new state, and the goroutine the handler starts, if any
  (\<open>go s.performScan(scanID, req)\<close>).
\<close>

definition HandleScan ::
  "string \<Rightarrow> string \<Rightarrow> request \<Rightarrow> Server \<Rightarrow> response \<times> Server \<times> (string \<times> ScanRequest) option"
where
  "HandleScan uuid now r s =
     (if r_method r \<noteq> ''POST'' then (http_Error ''Method not allowed'' 405, s, None)
      else case r_body r of
        Inl err \<Rightarrow> (http_Error (''Invalid request body: '' @ err) 400, s, None)
      | Inr req \<Rightarrow>
          if RepoURL req = [] then (http_Error ''repo_url is required'' 400, s, None)
          else
            let scanID = uuid;
                scanResult = \<lparr>ScanID = scanID, Status = ''pending'',
                    scan_RepoURL = RepoURL req, StartedAt = now, CompletedAt = [],
                    TotalSecrets = 0, VerifiedCount = 0, Unverified = 0, Secrets = [],
                    Error = []\<rparr>;
                p = length (heap s);
                s' = s\<lparr>heap := heap s @ [scanResult],
                       scans := AList.update scanID p (scans s)\<rparr>;
                response = \<lparr>resp_ScanID = scanID, resp_Status = ''pending'',
                    Message = ''Scan initiated successfully'', CreatedAt = now\<rparr>
            in (json_reply 202 (ScanResponse_json response), s', Some (scanID, req)))"

text \<open>
  \<open>HandleGetScan\<close> and \<open>HandleListScans\<close> as functions of the state: the reply when
  no task writes to the jobs while they are encoded. Both look the pointers up under the
  read lock and encode after releasing it; the encoding under concurrent writes is part
  of the concurrent runs below.
\<close>

definition HandleGetScan :: "request \<Rightarrow> Server \<Rightarrow> response \<times> Server" where
  "HandleGetScan r s =
     (if r_method r \<noteq> ''GET'' then (http_Error ''Method not allowed'' 405, s)
      else
        let scanID = query_get (r_query r) ''scan_id''
        in if scanID = [] then (http_Error ''scan_id parameter is required'' 400, s)
           else case map_of (scans s) scanID of
             None \<Rightarrow> (http_Error ''Scan not found'' 404, s)
           | Some scanResult \<Rightarrow> (json_reply 200 (ScanResult_json (heap s ! scanResult)), s))"

text \<open>\<open>HandleListScans\<close> ranges over the map, in the order \<open>order\<close> picks, and replies
  with the jobs and their number.\<close>

definition list_scans :: "nat list \<Rightarrow> Server \<Rightarrow> ScanResult list" where
  "list_scans order s = map (\<lambda>(scanID, scan). heap s ! scan) (range_map order (scans s))"

definition HandleListScans :: "nat list \<Rightarrow> request \<Rightarrow> Server \<Rightarrow> response \<times> Server" where
  "HandleListScans order r s =
     (if r_method r \<noteq> ''GET'' then (http_Error ''Method not allowed'' 405, s)
      else
        let scans = list_scans order s
        in (json_reply 200
              (JObject [(''scans'', JArray (map ScanResult_json scans)),
                        (''total'', JInt (int (length scans)))]), s))"

subsection \<open>The scan task\<close>

definition DetectorType_String :: "DetectorType \<Rightarrow> string" where
  "DetectorType_String d = (case d of DetectorType_Exa \<Rightarrow> ''Exa'' | DetectorType_Other n \<Rightarrow> n)"

text \<open>
  The body of the consumer loop of \<open>performScan\<close>: the \<open>SecretResult\<close> built from one
  received \<open>Result\<close>. The literal assigns no \<open>Raw\<close>, so the field keeps Go's zero value,
  the empty string. \<open>SourceMetadata\<close> is \<open>None\<close> for a nil pointer and otherwise holds
  what \<open>GetData().GetGit().GetRepository()\<close> returns.
\<close>

definition secret_of :: "Result \<Rightarrow> SecretResult" where
  "secret_of result =
     (let secret = \<lparr>s_DetectorType = DetectorType_String (DetectorType result),
                     s_DetectorName = DetectorName result,
                     s_Verified = Verified result,
                     s_Raw = [],
                     s_Redacted = Redacted result,
                     s_ExtraData = ExtraData result,
                     SourceName = [], SourceType = []\<rparr>
      in case SourceMetadata result of
           None \<Rightarrow> secret
         | Some repository \<Rightarrow> secret\<lparr>SourceName := repository, SourceType := ''git''\<rparr>)"

text \<open>\<open>for result := range resultsChan { ...; secrets = append(secrets, secret) }\<close>\<close>

fun consume :: "Result list \<Rightarrow> SecretResult list \<Rightarrow> SecretResult list" where
  "consume [] secrets = secrets"
| "consume (result # rest) secrets = consume rest (secrets @ [secret_of result])"

text \<open>The counting loop over \<open>secrets\<close>, on the job record.\<close>

fun count_secrets :: "SecretResult list \<Rightarrow> ScanResult \<Rightarrow> ScanResult" where
  "count_secrets [] scanResult = scanResult"
| "count_secrets (secret # rest) scanResult =
     count_secrets rest
       (if s_Verified secret
        then scanResult\<lparr>VerifiedCount := VerifiedCount scanResult + 1\<rparr>
        else scanResult\<lparr>Unverified := Unverified scanResult + 1\<rparr>)"

text \<open>A write through a pointer: the object at the address is replaced.\<close>

definition store :: "nat \<Rightarrow> (ScanResult \<Rightarrow> ScanResult) \<Rightarrow> Server \<Rightarrow> Server" where
  "store p f s = s\<lparr>heap := (heap s)[p := f (heap s ! p)]\<rparr>"

text \<open>
  The first critical section of \<open>performScan\<close>: the pointer is read from the map (a nil
  pointer for an unknown identifier, whose dereference panics) and the job is marked
  running. The pointer is kept for the last critical section.
\<close>

definition mark_running :: "string \<Rightarrow> Server \<Rightarrow> panic + (nat \<times> Server)" where
  "mark_running scanID s =
     (case map_of (scans s) scanID of
        None \<Rightarrow> Inl NilDereference
      | Some scanResult \<Rightarrow>
          Inr (scanResult, store scanResult (\<lambda>r. r\<lparr>Status := ''running''\<rparr>) s))"

definition updateScanError :: "string \<Rightarrow> string \<Rightarrow> string \<Rightarrow> Server \<Rightarrow> Server" where
  "updateScanError now scanID errorMsg s =
     (case map_of (scans s) scanID of
        None \<Rightarrow> s
      | Some scanResult \<Rightarrow>
          store scanResult
            (\<lambda>r. r\<lparr>Status := ''failed'', Error := errorMsg, CompletedAt := now\<rparr>) s)"

text \<open>The last critical section of \<open>performScan\<close>, through the pointer read at the
  start.\<close>

definition complete_scan :: "string \<Rightarrow> SecretResult list \<Rightarrow> nat \<Rightarrow> Server \<Rightarrow> Server" where
  "complete_scan now secrets scanResult s =
     store scanResult
       (\<lambda>r. count_secrets secrets
              (r\<lparr>Status := ''completed'', CompletedAt := now, Secrets := secrets,
                 TotalSecrets := int (length secrets)\<rparr>)) s"

text \<open>
  \<open>sendWebhook\<close>. The payload is built and marshalled into \<open>jsonData\<close>
  (\<open>json.Marshal\<close> cannot fail on this struct, so its error branch is not a branch of
  the model); the request is then built by
  \<open>http.NewRequest(http.MethodPost, webhookURL, nil)\<close>, with a nil body, and the three
  headers are set on it. The response of \<open>Do\<close> is only closed.
\<close>

definition webhook_payload :: "string \<Rightarrow> ScanResult \<Rightarrow> WebhookPayload" where
  "webhook_payload now scanResult =
     \<lparr>Event = ''scan.completed'', payload_ScanResult = scanResult, Timestamp = now\<rparr>"

definition webhook_request :: "string \<Rightarrow> json http_request" where
  "webhook_request webhookURL =
     \<lparr>req_method = ''POST'', req_url = webhookURL, req_body = None,
      req_headers = [(''Content-Type'', ''application/json''),
                     (''User-Agent'', ''TruffleHog-API/1.0''),
                     (''X-TruffleHog-Event'', ''scan.completed'')]\<rparr>"

definition sendWebhook :: "json net \<Rightarrow> string \<Rightarrow> string \<Rightarrow> string \<Rightarrow> Server \<Rightarrow> panic + Server" where
  "sendWebhook webhookClient now webhookURL scanID s =
     (if webhookURL = [] then Inr s
      else case map_of (scans s) scanID of
        None \<Rightarrow> Inl NilDereference
      | Some scanResult \<Rightarrow>
          let payload = webhook_payload now (heap s ! scanResult);
              jsonData = WebhookPayload_json payload
          in (case new_request webhookClient ''POST'' webhookURL of
                Some err \<Rightarrow> Inr s
              | None \<Rightarrow>
                  let req = webhook_request webhookURL
                  in (case do webhookClient req of
                        Inl err \<Rightarrow> Inr (s\<lparr>posted := posted s @ [req]\<rparr>)
                      | Inr resp \<Rightarrow> Inr (s\<lparr>posted := posted s @ [req]\<rparr>))))"

text \<open>
  What one run of \<open>performScan\<close> meets outside the server: the error of
  \<open>gitSource.Init\<close> and of \<open>SetSourceUnit\<close> (\<open>None\<close> for success), the time at the
  terminal update and at the webhook, and the network of \<open>webhookClient\<close>.
\<close>

record scan_env =
  init_err :: "string option"
  unit_err :: "string option"
  done_at :: string
  hook_at :: string
  webhookClient :: "json net"

text \<open>
  \<open>performScan\<close>. The channel \<open>resultsChan\<close> is created in the function and closed
  without a send, so the consumer loop runs over no value and \<open>secrets\<close> stays empty.
\<close>

definition performScan :: "scan_env \<Rightarrow> string \<Rightarrow> ScanRequest \<Rightarrow> Server \<Rightarrow> panic + Server" where
  "performScan env scanID req s =
     (case mark_running scanID s of
        Inl p \<Rightarrow> Inl p
      | Inr (scanResult, s1) \<Rightarrow>
          (case init_err env of
             Some err \<Rightarrow>
               sendWebhook (webhookClient env) (hook_at env) (WebhookURL req) scanID
                 (updateScanError (done_at env) scanID
                    (''Failed to initialize git source: '' @ err) s1)
           | None \<Rightarrow>
               (case unit_err env of
                  Some err \<Rightarrow>
                    sendWebhook (webhookClient env) (hook_at env) (WebhookURL req) scanID
                      (updateScanError (done_at env) scanID
                         (''Failed to set source unit: '' @ err) s1)
                | None \<Rightarrow>
                    let secrets = consume [] []
                    in sendWebhook (webhookClient env) (hook_at env) (WebhookURL req) scanID
                         (complete_scan (done_at env) secrets scanResult s1))))"

subsection \<open>Concurrent runs\<close>

text \<open>
  Each accepted request starts a goroutine that runs \<open>performScan\<close>. The goroutines and
  the handlers interleave. A write to a field of a job is one step. The critical sections
  that write the terminal state write the status first and the other fields after it:
  \<open>updateScanError\<close> writes \<open>Status\<close>, \<open>Error\<close>, \<open>CompletedAt\<close>; the last section of
  \<open>performScan\<close> writes \<open>Status\<close>, \<open>CompletedAt\<close>, \<open>Secrets\<close>, \<open>TotalSecrets\<close> and
  then runs the counting loop, one increment per secret. A task is a goroutine with its
  program counter; inside a critical section the counter says which write is next, and
  the task holds the write lock of \<open>scansMutex\<close>.
\<close>

datatype pc =
    AtStart
  | AtInit nat
  | AtSetSourceUnit nat
  | AtCollect nat
  | Failing1 nat string
  | Failing2 nat
  | Completing1 nat "SecretResult list"
  | Completing2 nat "SecretResult list"
  | Completing3 nat "SecretResult list"
  | Counting nat "SecretResult list" nat
  | AtWebhook
  | Finished

fun holds_lock :: "pc \<Rightarrow> bool" where
  "holds_lock (Failing1 p m) = True"
| "holds_lock (Failing2 p) = True"
| "holds_lock (Completing1 p xs) = True"
| "holds_lock (Completing2 p xs) = True"
| "holds_lock (Completing3 p xs) = True"
| "holds_lock (Counting p xs k) = True"
| "holds_lock AtStart = False"
| "holds_lock (AtInit p) = False"
| "holds_lock (AtSetSourceUnit p) = False"
| "holds_lock (AtCollect p) = False"
| "holds_lock AtWebhook = False"
| "holds_lock Finished = False"

text \<open>A task is settled when it has left its last critical section.\<close>

fun settled :: "pc \<Rightarrow> bool" where
  "settled AtWebhook = True"
| "settled Finished = True"
| "settled (Failing1 p m) = False"
| "settled (Failing2 p) = False"
| "settled (Completing1 p xs) = False"
| "settled (Completing2 p xs) = False"
| "settled (Completing3 p xs) = False"
| "settled (Counting p xs k) = False"
| "settled AtStart = False"
| "settled (AtInit p) = False"
| "settled (AtSetSourceUnit p) = False"
| "settled (AtCollect p) = False"

record task =
  t_scanID :: string
  t_req :: ScanRequest
  t_pc :: pc

text \<open>The entry of \<open>updateScanError\<close>: the lock is taken, the identifier is looked up and,
  if it is there, the status is written. An unknown identifier leaves the job alone.\<close>

definition enter_failing :: "string \<Rightarrow> task \<Rightarrow> Server \<Rightarrow> task \<times> Server" where
  "enter_failing errorMsg t s =
     (case map_of (scans s) (t_scanID t) of
        None \<Rightarrow> (t\<lparr>t_pc := AtWebhook\<rparr>, s)
      | Some scanResult \<Rightarrow>
          (t\<lparr>t_pc := Failing1 scanResult errorMsg\<rparr>,
           store scanResult (\<lambda>r. r\<lparr>Status := ''failed''\<rparr>) s))"

text \<open>
  One step of a task. \<open>locked\<close> says that the lock is held (by another task): a step
  that has to take the lock then waits, that is, changes nothing. \<open>rs\<close> is what the
  consumer goroutine has received on \<open>resultsChan\<close> when the last critical section
  starts. The program as written sends nothing, so for the program \<open>rs\<close> is empty; the
  machine takes any \<open>rs\<close>, so that its runs include the runs of the program and what is
  proved of all its runs holds of the program.
\<close>

definition task_step ::
  "bool \<Rightarrow> scan_env \<Rightarrow> Result list \<Rightarrow> task \<Rightarrow> Server \<Rightarrow> panic + (task \<times> Server)"
where
  "task_step locked env rs t s =
     (case t_pc t of
        AtStart \<Rightarrow>
          if locked then Inr (t, s)
          else (case mark_running (t_scanID t) s of
                  Inl p \<Rightarrow> Inl p
                | Inr (scanResult, s1) \<Rightarrow> Inr (t\<lparr>t_pc := AtInit scanResult\<rparr>, s1))
      | AtInit scanResult \<Rightarrow>
          (case init_err env of
             None \<Rightarrow> Inr (t\<lparr>t_pc := AtSetSourceUnit scanResult\<rparr>, s)
           | Some err \<Rightarrow>
               if locked then Inr (t, s)
               else Inr (enter_failing (''Failed to initialize git source: '' @ err) t s))
      | AtSetSourceUnit scanResult \<Rightarrow>
          (case unit_err env of
             None \<Rightarrow> Inr (t\<lparr>t_pc := AtCollect scanResult\<rparr>, s)
           | Some err \<Rightarrow>
               if locked then Inr (t, s)
               else Inr (enter_failing (''Failed to set source unit: '' @ err) t s))
      | AtCollect scanResult \<Rightarrow>
          if locked then Inr (t, s)
          else Inr (t\<lparr>t_pc := Completing1 scanResult (consume rs [])\<rparr>,
                    store scanResult (\<lambda>r. r\<lparr>Status := ''completed''\<rparr>) s)
      | Failing1 scanResult errorMsg \<Rightarrow>
          Inr (t\<lparr>t_pc := Failing2 scanResult\<rparr>,
               store scanResult (\<lambda>r. r\<lparr>Error := errorMsg\<rparr>) s)
      | Failing2 scanResult \<Rightarrow>
          Inr (t\<lparr>t_pc := AtWebhook\<rparr>,
               store scanResult (\<lambda>r. r\<lparr>CompletedAt := done_at env\<rparr>) s)
      | Completing1 scanResult secrets \<Rightarrow>
          Inr (t\<lparr>t_pc := Completing2 scanResult secrets\<rparr>,
               store scanResult (\<lambda>r. r\<lparr>CompletedAt := done_at env\<rparr>) s)
      | Completing2 scanResult secrets \<Rightarrow>
          Inr (t\<lparr>t_pc := Completing3 scanResult secrets\<rparr>,
               store scanResult (\<lambda>r. r\<lparr>Secrets := secrets\<rparr>) s)
      | Completing3 scanResult secrets \<Rightarrow>
          Inr (t\<lparr>t_pc := Counting scanResult secrets 0\<rparr>,
               store scanResult (\<lambda>r. r\<lparr>TotalSecrets := int (length secrets)\<rparr>) s)
      | Counting scanResult secrets k \<Rightarrow>
          if k < length secrets then
            Inr (t\<lparr>t_pc := Counting scanResult secrets (Suc k)\<rparr>,
                 store scanResult
                   (\<lambda>r. if s_Verified (secrets ! k)
                        then r\<lparr>VerifiedCount := VerifiedCount r + 1\<rparr>
                        else r\<lparr>Unverified := Unverified r + 1\<rparr>) s)
          else Inr (t\<lparr>t_pc := AtWebhook\<rparr>, s)
      | AtWebhook \<Rightarrow>
          if WebhookURL (t_req t) \<noteq> [] \<and> locked then Inr (t, s)
          else (case sendWebhook (webhookClient env) (hook_at env) (WebhookURL (t_req t))
                       (t_scanID t) s of
                  Inl p \<Rightarrow> Inl p
                | Inr s1 \<Rightarrow> Inr (t\<lparr>t_pc := Finished\<rparr>, s1))
      | Finished \<Rightarrow> Inr (t, s))"

text \<open>A task run for a number of steps in a row, alone, with the same outside world.\<close>

fun task_run ::
  "nat \<Rightarrow> scan_env \<Rightarrow> Result list \<Rightarrow> task \<Rightarrow> Server \<Rightarrow> panic + (task \<times> Server)"
where
  "task_run 0 env rs t s = Inr (t, s)"
| "task_run (Suc n) env rs t s =
     (case task_step False env rs t s of
        Inl p \<Rightarrow> Inl p
      | Inr (t1, s1) \<Rightarrow> task_run n env rs t1 s1)"

text \<open>
  A status or list handler looks its pointers up under the read lock, releases the lock
  and only then encodes the jobs (\<open>json.NewEncoder(w).Encode\<close>). A reader is an encoding
  in progress: the pointer, the number of fields read so far and the fields as read. The
  encoder reads the fields of the struct in their order, one per step, so that writes of
  a task can fall between two reads.
\<close>

record reader =
  rd_ptr :: nat
  rd_count :: nat
  rd_seen :: ScanResult

definition zero_ScanResult :: ScanResult where
  "zero_ScanResult =
     \<lparr>ScanID = [], Status = [], scan_RepoURL = [], StartedAt = [], CompletedAt = [],
      TotalSecrets = 0, VerifiedCount = 0, Unverified = 0, Secrets = [], Error = []\<rparr>"

definition new_reader :: "nat \<Rightarrow> reader" where
  "new_reader p = \<lparr>rd_ptr = p, rd_count = 0, rd_seen = zero_ScanResult\<rparr>"

definition read_field :: "nat \<Rightarrow> ScanResult \<Rightarrow> ScanResult \<Rightarrow> ScanResult" where
  "read_field k obj seen =
     (if k = 0 then seen\<lparr>ScanID := ScanID obj\<rparr>
      else if k = 1 then seen\<lparr>Status := Status obj\<rparr>
      else if k = 2 then seen\<lparr>scan_RepoURL := scan_RepoURL obj\<rparr>
      else if k = 3 then seen\<lparr>StartedAt := StartedAt obj\<rparr>
      else if k = 4 then seen\<lparr>CompletedAt := CompletedAt obj\<rparr>
      else if k = 5 then seen\<lparr>TotalSecrets := TotalSecrets obj\<rparr>
      else if k = 6 then seen\<lparr>VerifiedCount := VerifiedCount obj\<rparr>
      else if k = 7 then seen\<lparr>Unverified := Unverified obj\<rparr>
      else if k = 8 then seen\<lparr>Secrets := Secrets obj\<rparr>
      else if k = 9 then seen\<lparr>Error := Error obj\<rparr>
      else seen)"

definition reader_step :: "Server \<Rightarrow> reader \<Rightarrow> reader" where
  "reader_step s rd =
     (if rd_count rd < 10
      then rd\<lparr>rd_count := Suc (rd_count rd),
              rd_seen := read_field (rd_count rd) (heap s ! rd_ptr rd) (rd_seen rd)\<rparr>
      else rd)"


record system =
  server :: Server
  tasks :: "task list"
  readers :: "reader list"

definition init_system :: system where
  "init_system = \<lparr>server = NewServer, tasks = [], readers = []\<rparr>"

text \<open>The write lock is held when some task is inside a critical section.\<close>

definition locked :: "system \<Rightarrow> bool" where
  "locked \<sigma> = list_ex (\<lambda>t. holds_lock (t_pc t)) (tasks \<sigma>)"

text \<open>
  The events of the system: a call of \<open>POST /scan\<close> (with the identifier and the time
  it draws); the locked part of a status request, which leaves a reader behind when the
  identifier is known, and of a list request, which leaves one reader per job; one read
  of the reader with the given number; and one step of the task with the given number,
  with what it meets outside. A handler that has to take the lock while a task holds it
  waits.
\<close>

datatype event =
    Submit string string request
  | GetStatus request
  | ListScans "nat list" request
  | Encode nat
  | Run nat scan_env "Result list"

fun step :: "event \<Rightarrow> system \<Rightarrow> panic + system" where
  "step (Submit uuid now r) \<sigma> =
     (if locked \<sigma> then Inr \<sigma>
      else
        (case HandleScan uuid now r (server \<sigma>) of
           (resp, s1, spawned) \<Rightarrow>
             Inr (\<sigma>\<lparr>server := s1,
                    tasks := tasks \<sigma> @
                      (case spawned of
                         None \<Rightarrow> []
                       | Some (scanID, req) \<Rightarrow>
                           [\<lparr>t_scanID = scanID, t_req = req, t_pc = AtStart\<rparr>])\<rparr>)))"
| "step (GetStatus r) \<sigma> =
     (if r_method r \<noteq> ''GET'' then Inr \<sigma>
      else
        let scanID = query_get (r_query r) ''scan_id''
        in if scanID = [] then Inr \<sigma>
           else if locked \<sigma> then Inr \<sigma>
           else case map_of (scans (server \<sigma>)) scanID of
             None \<Rightarrow> Inr \<sigma>
           | Some scanResult \<Rightarrow> Inr (\<sigma>\<lparr>readers := readers \<sigma> @ [new_reader scanResult]\<rparr>))"
| "step (ListScans order r) \<sigma> =
     (if r_method r \<noteq> ''GET'' then Inr \<sigma>
      else if locked \<sigma> then Inr \<sigma>
      else Inr (\<sigma>\<lparr>readers := readers \<sigma> @
                  map (\<lambda>(scanID, scan). new_reader scan)
                    (range_map order (scans (server \<sigma>)))\<rparr>))"
| "step (Encode k) \<sigma> =
     (if k < length (readers \<sigma>)
      then Inr (\<sigma>\<lparr>readers := (readers \<sigma>)[k := reader_step (server \<sigma>) (readers \<sigma> ! k)]\<rparr>)
      else Inr \<sigma>)"
| "step (Run i env rs) \<sigma> =
     (if i < length (tasks \<sigma>) then
        (case task_step (locked \<sigma>) env rs (tasks \<sigma> ! i) (server \<sigma>) of
           Inl p \<Rightarrow> Inl p
         | Inr (t1, s1) \<Rightarrow> Inr (\<sigma>\<lparr>server := s1, tasks := (tasks \<sigma>)[i := t1]\<rparr>))
      else Inr \<sigma>)"

fun run :: "event list \<Rightarrow> system \<Rightarrow> panic + system" where
  "run [] \<sigma> = Inr \<sigma>"
| "run (e # es) \<sigma> = (case step e \<sigma> of Inl p \<Rightarrow> Inl p | Inr \<sigma>1 \<Rightarrow> run es \<sigma>1)"

text \<open>
  \<open>uuid.New()\<close> draws a random version-4 UUID; that an identifier is not drawn twice
  is the library's guarantee, not the server's (the handler does not look the identifier
  up before it stores the job). A trace is \<open>fresh\<close> when every identifier a \<open>Submit\<close>
  draws is not yet in the registry.
\<close>

fun fresh_event :: "system \<Rightarrow> event \<Rightarrow> bool" where
  "fresh_event \<sigma> (Submit uuid now r) = (map_of (scans (server \<sigma>)) uuid = None)"
| "fresh_event \<sigma> (GetStatus r) = True"
| "fresh_event \<sigma> (ListScans order r) = True"
| "fresh_event \<sigma> (Encode k) = True"
| "fresh_event \<sigma> (Run i env rs) = True"

fun fresh :: "system \<Rightarrow> event list \<Rightarrow> bool" where
  "fresh \<sigma> [] = True"
| "fresh \<sigma> (e # es) =
     (fresh_event \<sigma> e \<and> (case step e \<sigma> of Inl p \<Rightarrow> True | Inr \<sigma>1 \<Rightarrow> fresh \<sigma>1 es))"

text \<open>An event as the program as written meets it: nothing is received on
  \<open>resultsChan\<close>. The runs of the program are the runs of such events.\<close>

fun as_written :: "event \<Rightarrow> event" where
  "as_written (Run i env rs) = Run i env []"
| "as_written (Submit uuid now r) = Submit uuid now r"
| "as_written (GetStatus r) = GetStatus r"
| "as_written (ListScans order r) = ListScans order r"
| "as_written (Encode k) = Encode k"

text \<open>The job a client sees under an identifier: the object the registry points to.\<close>

definition job :: "Server \<Rightarrow> string \<Rightarrow> ScanResult option" where
  "job s scanID = map_option (\<lambda>p. heap s ! p) (map_of (scans s) scanID)"

definition terminal :: "string \<Rightarrow> bool" where
  "terminal st = (st = ''completed'' \<or> st = ''failed'')"

subsection \<open>The state machine of a job and the invariant of the system\<close>

text \<open>The transitions of a job's status: pending to running, running to completed or
  failed.\<close>

definition transition :: "string \<Rightarrow> string \<Rightarrow> bool" where
  "transition a b = ((a = ''pending'' \<and> b = ''running'') \<or> (a = ''running'' \<and> terminal b))"

text \<open>A job record without results, a list of secrets without raw values, and counters
  that count a list of secrets.\<close>

definition zeroed :: "ScanResult \<Rightarrow> bool" where
  "zeroed j = (Secrets j = [] \<and> TotalSecrets j = 0 \<and> VerifiedCount j = 0 \<and> Unverified j = 0)"

definition raw_free :: "SecretResult list \<Rightarrow> bool" where
  "raw_free xs = list_all (\<lambda>x. s_Raw x = []) xs"

definition counted :: "ScanResult \<Rightarrow> SecretResult list \<Rightarrow> bool" where
  "counted j xs =
     (VerifiedCount j = int (length (filter s_Verified xs)) \<and>
      Unverified j = int (length (filter (\<lambda>x. \<not> s_Verified x) xs)))"

text \<open>
  What a task's program counter says about its job: the status, how far the fields of
  the terminal update are written, and that a pointer the task holds is the job's.
\<close>

fun pc_ok :: "pc \<Rightarrow> nat \<Rightarrow> ScanResult \<Rightarrow> bool" where
  "pc_ok AtStart p j = (Status j = ''pending'' \<and> zeroed j)"
| "pc_ok (AtInit q) p j = (q = p \<and> Status j = ''running'' \<and> zeroed j)"
| "pc_ok (AtSetSourceUnit q) p j = (q = p \<and> Status j = ''running'' \<and> zeroed j)"
| "pc_ok (AtCollect q) p j = (q = p \<and> Status j = ''running'' \<and> zeroed j)"
| "pc_ok (Failing1 q m) p j = (q = p \<and> Status j = ''failed'' \<and> zeroed j)"
| "pc_ok (Failing2 q) p j = (q = p \<and> Status j = ''failed'' \<and> zeroed j)"
| "pc_ok (Completing1 q xs) p j =
     (q = p \<and> Status j = ''completed'' \<and> zeroed j \<and> raw_free xs)"
| "pc_ok (Completing2 q xs) p j =
     (q = p \<and> Status j = ''completed'' \<and> zeroed j \<and> raw_free xs)"
| "pc_ok (Completing3 q xs) p j =
     (q = p \<and> Status j = ''completed'' \<and> Secrets j = xs \<and> raw_free xs \<and>
      TotalSecrets j = 0 \<and> VerifiedCount j = 0 \<and> Unverified j = 0)"
| "pc_ok (Counting q xs k) p j =
     (q = p \<and> Status j = ''completed'' \<and> Secrets j = xs \<and> raw_free xs \<and>
      TotalSecrets j = int (length xs) \<and> k \<le> length xs \<and> counted j (take k xs))"
| "pc_ok AtWebhook p j =
     (terminal (Status j) \<and> raw_free (Secrets j) \<and>
      TotalSecrets j = int (length (Secrets j)) \<and> counted j (Secrets j))"
| "pc_ok Finished p j =
     (terminal (Status j) \<and> raw_free (Secrets j) \<and>
      TotalSecrets j = int (length (Secrets j)) \<and> counted j (Secrets j))"

text \<open>What the fields a reader has read say: no raw value, and a terminal status, once
  read, is the status the job still has.\<close>

definition reader_ok :: "Server \<Rightarrow> reader \<Rightarrow> bool" where
  "reader_ok s rd =
     (rd_ptr rd < length (heap s) \<and> raw_free (Secrets (rd_seen rd)) \<and>
      (1 < rd_count rd \<and> terminal (Status (rd_seen rd))
         \<longrightarrow> Status (heap s ! rd_ptr rd) = Status (rd_seen rd)))"

text \<open>
  The invariant: the identifiers of the tasks are distinct, the registry maps the
  identifier of the task with number \<open>i\<close> to the object with address \<open>i\<close> (one task,
  one registry entry and one object per accepted request, in the order of submission),
  every task agrees with its job, every reader is as above and no posted request has a
  body.
\<close>

definition invariant :: "system \<Rightarrow> bool" where
  "invariant \<sigma> =
     (distinct (map t_scanID (tasks \<sigma>)) \<and>
      scans (server \<sigma>) = zip (map t_scanID (tasks \<sigma>)) [0..<length (tasks \<sigma>)] \<and>
      length (heap (server \<sigma>)) = length (tasks \<sigma>) \<and>
      list_all (\<lambda>i. pc_ok (t_pc (tasks \<sigma> ! i)) i (heap (server \<sigma>) ! i))
        [0..<length (tasks \<sigma>)] \<and>
      list_all (reader_ok (server \<sigma>)) (readers \<sigma>) \<and>
      list_all (\<lambda>q. req_body q = None) (posted (server \<sigma>)))"

text \<open>In a run of the program as written no task carries secrets and no job has any.\<close>

fun carries_none :: "pc \<Rightarrow> bool" where
  "carries_none (Completing1 p xs) = (xs = [])"
| "carries_none (Completing2 p xs) = (xs = [])"
| "carries_none (Completing3 p xs) = (xs = [])"
| "carries_none (Counting p xs k) = (xs = [])"
| "carries_none AtStart = True"
| "carries_none (AtInit p) = True"
| "carries_none (AtSetSourceUnit p) = True"
| "carries_none (AtCollect p) = True"
| "carries_none (Failing1 p m) = True"
| "carries_none (Failing2 p) = True"
| "carries_none AtWebhook = True"
| "carries_none Finished = True"


text \<open>An event with the raw values of the received results blanked.\<close>

fun scrub :: "event \<Rightarrow> event" where
  "scrub (Run i env rs) = Run i env (map (\<lambda>r. r\<lparr>Raw := []\<rparr>) rs)"
| "scrub (Submit uuid now r) = Submit uuid now r"
| "scrub (GetStatus r) = GetStatus r"
| "scrub (ListScans order r) = ListScans order r"
| "scrub (Encode k) = Encode k"

subsection \<open>Relations between states of a run\<close>

text \<open>The job record \<open>HandleScan\<close> allocates.\<close>

definition new_job :: "string \<Rightarrow> string \<Rightarrow> ScanRequest \<Rightarrow> ScanResult" where
  "new_job uuid now req =
     \<lparr>ScanID = uuid, Status = ''pending'', scan_RepoURL = RepoURL req,
      StartedAt = now, CompletedAt = [], TotalSecrets = 0, VerifiedCount = 0,
      Unverified = 0, Secrets = [], Error = []\<rparr>"

text \<open>
  What a reader that has read its first \<open>k\<close> fields from the record \<open>j\<close> has seen,
  and a reader that has seen just that of the job it points to.
\<close>

definition read_upto :: "nat \<Rightarrow> ScanResult \<Rightarrow> ScanResult" where
  "read_upto k j = fold (\<lambda>i seen. read_field i j seen) [0..<k] zero_ScanResult"

definition in_sync :: "Server \<Rightarrow> reader \<Rightarrow> bool" where
  "in_sync s rd = (rd_seen rd = read_upto (rd_count rd) (heap s ! rd_ptr rd))"


text \<open>
  What one step changes (\<open>moves\<close>): the status of a job stays or makes a transition,
  and a reader that has just read the status has read the status the job had. What any
  number of steps keep (\<open>keeps\<close>): the tasks and their identifiers, a terminal status,
  every field of a job at rest, the readers with their pointers, the status a reader has
  read, and, for a reader of a job at rest, that it has seen just the fields of that job.
\<close>

definition moves :: "system \<Rightarrow> system \<Rightarrow> bool" where
  "moves \<sigma> \<sigma>' =
     ((\<forall>i<length (tasks \<sigma>).
        Status (heap (server \<sigma>') ! i) = Status (heap (server \<sigma>) ! i) \<or>
        transition (Status (heap (server \<sigma>) ! i)) (Status (heap (server \<sigma>') ! i))) \<and>
      (\<forall>m<length (readers \<sigma>').
         1 < rd_count (readers \<sigma>' ! m) \<and>
         (m < length (readers \<sigma>) \<longrightarrow> rd_count (readers \<sigma> ! m) \<le> 1)
           \<longrightarrow> Status (rd_seen (readers \<sigma>' ! m)) =
                Status (heap (server \<sigma>) ! rd_ptr (readers \<sigma>' ! m))))"

definition keeps :: "system \<Rightarrow> system \<Rightarrow> bool" where
  "keeps \<sigma> \<sigma>' =
     (length (tasks \<sigma>) \<le> length (tasks \<sigma>') \<and>
      (\<forall>i<length (tasks \<sigma>).
         t_scanID (tasks \<sigma>' ! i) = t_scanID (tasks \<sigma> ! i) \<and>
         (terminal (Status (heap (server \<sigma>) ! i))
            \<longrightarrow> Status (heap (server \<sigma>') ! i) = Status (heap (server \<sigma>) ! i)) \<and>
         (settled (t_pc (tasks \<sigma> ! i))
            \<longrightarrow> settled (t_pc (tasks \<sigma>' ! i)) \<and>
                heap (server \<sigma>') ! i = heap (server \<sigma>) ! i)) \<and>
      length (readers \<sigma>) \<le> length (readers \<sigma>') \<and>
      (\<forall>k<length (readers \<sigma>).
         rd_ptr (readers \<sigma>' ! k) = rd_ptr (readers \<sigma> ! k) \<and>
         rd_count (readers \<sigma> ! k) \<le> rd_count (readers \<sigma>' ! k) \<and>
         (1 < rd_count (readers \<sigma> ! k)
            \<longrightarrow> Status (rd_seen (readers \<sigma>' ! k)) = Status (rd_seen (readers \<sigma> ! k))) \<and>
         (rd_ptr (readers \<sigma> ! k) < length (tasks \<sigma>) \<and>
          settled (t_pc (tasks \<sigma> ! rd_ptr (readers \<sigma> ! k))) \<and>
          in_sync (server \<sigma>) (readers \<sigma> ! k)
            \<longrightarrow> in_sync (server \<sigma>') (readers \<sigma>' ! k))))"

subsection \<open>Sample runs\<close>

text \<open>The end-to-end example: a request with a webhook and \<open>verify:false\<close>, the state
  after it is accepted, and an outside world in which nothing fails.\<close>

definition sample_scan :: ScanRequest where
  "sample_scan =
     \<lparr>RepoURL = ''https://example/repo.git'', WebhookURL = ''https://hook.example/cb'',
      Verify = False, IncludeOnly = []\<rparr>"

definition sample_request :: request where
  "sample_request = \<lparr>r_method = ''POST'', r_body = Inr sample_scan, r_query = []\<rparr>"

definition sample_submitted :: Server where
  "sample_submitted = fst (snd (HandleScan ''scan-1'' ''t0'' sample_request NewServer))"

definition sample_env :: scan_env where
  "sample_env =
     \<lparr>init_err = None, unit_err = None, done_at = ''t1'', hook_at = ''t2'',
      webhookClient = mock_client 200\<rparr>"

text \<open>A status request for an identifier.\<close>

definition status_request :: "string \<Rightarrow> request" where
  "status_request scanID = \<lparr>r_method = ''GET'', r_body = Inl [], r_query = [(''scan_id'', scanID)]\<rparr>"


definition encode_all :: "nat \<Rightarrow> event list" where
  "encode_all k = replicate 10 (Encode k)"







text \<open>Detector results: one verified, one not.\<close>

definition sample_results :: "Result list" where
  "sample_results =
     [\<lparr>DetectorType = DetectorType_Exa, DetectorName = [],
       Raw = ''12345678-abcd-abcd-abcd-123456789abc'', Redacted = ''12345678...'',
       Verified = True, verificationError = None, ExtraData = [],
       SourceMetadata = Some ''https://example/repo.git''\<rparr>,
      \<lparr>DetectorType = DetectorType_Exa, DetectorName = [],
       Raw = ''0fedcba9-0000-1111-2222-333344445555'', Redacted = ''0fedcba9...'',
       Verified = False, verificationError = None, ExtraData = [],
       SourceMetadata = None\<rparr>]"

text \<open>The same results with other raw values, and a run of the machine in which the
  task receives given results, completes, and its job is read.\<close>

definition other_results :: "Result list" where
  "other_results = map (\<lambda>r. r\<lparr>Raw := ''ffffffff-ffff-ffff-ffff-ffffffffffff''\<rparr>) sample_results"

definition secret_trace :: "Result list \<Rightarrow> event list" where
  "secret_trace rs =
     [Submit ''scan-1'' ''t0'' sample_request,
      Run 0 sample_env [], Run 0 sample_env [], Run 0 sample_env [],
      Run 0 sample_env rs]
     @ replicate 8 (Run 0 sample_env [])
     @ GetStatus (status_request ''scan-1'') # encode_all 0"

section \<open>Properties of the detector\<close>

subsection \<open>Map iteration\<close>

lemma mset_range_map: "mset (range_map ps xs) = mset xs"
proof (induction ps xs rule: range_map.induct)
  case (3 p ps x xs)
  let ?ys = "x # xs"
  let ?i = "p mod length ?ys"
  have i: "?i < length ?ys" by simp
  have "?ys = take ?i ?ys @ ?ys ! ?i # drop (Suc ?i) ?ys"
    using id_take_nth_drop[OF i] .
  then have "mset ?ys = mset (take ?i ?ys @ ?ys ! ?i # drop (Suc ?i) ?ys)"
    by simp
  also have "\<dots> = add_mset (?ys ! ?i) (mset (take ?i ?ys @ drop (Suc ?i) ?ys))"
    by simp
  finally show ?case using 3 by (simp only: range_map.simps Let_def mset.simps)
qed simp_all

lemma set_range_map: "set (range_map ps xs) = set xs"
  using mset_range_map[of ps xs] by (metis set_mset_mset)

lemma length_range_map: "length (range_map ps xs) = length xs"
  using mset_range_map[of ps xs] by (metis size_mset)

lemma distinct_range_map: "distinct (range_map ps xs) = distinct xs"
  using mset_range_map[of ps xs] by (metis mset_eq_imp_distinct_iff)

subsection \<open>What the pattern matches\<close>

lemma hex_run_Some:
  "hex_run n cs = Some r \<Longrightarrow> \<exists>g. cs = g @ r \<and> is_group n g"
proof (induction n cs rule: hex_run.induct)
  case (1 cs)
  then show ?case by (simp add: is_group_def)
next
  case (2 n)
  then show ?case by simp
next
  case (3 n c cs)
  from "3.prems" have c: "is_hex c" and r: "hex_run n cs = Some r"
    by (auto split: if_splits)
  from "3.IH"[OF c r] obtain g where "cs = g @ r" "is_group n g" by blast
  then have "c # cs = (c # g) @ r \<and> is_group (Suc n) (c # g)"
    using c by (simp add: is_group_def)
  then show ?case by blast
qed

lemma dash_Some: "dash cs = Some r \<Longrightarrow> cs = ''-'' @ r"
  by (cases cs) (auto split: if_splits)

lemma groups_key_shape:
  assumes "is_group 8 g1" "is_group 4 g2" "is_group 4 g3" "is_group 4 g4" "is_group 12 g5"
  shows "key_shape (g1 @ ''-'' @ g2 @ ''-'' @ g3 @ ''-'' @ g4 @ ''-'' @ g5)"
  using assms unfolding key_shape_def is_group_def
  by (simp add: nth_append)

lemma key_body_Some:
  assumes "key_body cs = Some rest"
  shows "\<exists>m. cs = m @ rest \<and> key_shape m"
proof -
  from assms obtain r1 r2 r3 r4 r5 r6 r7 r8 where
    h: "hex_run 8 cs = Some r1" "dash r1 = Some r2" "hex_run 4 r2 = Some r3"
       "dash r3 = Some r4" "hex_run 4 r4 = Some r5" "dash r5 = Some r6"
       "hex_run 4 r6 = Some r7" "dash r7 = Some r8" "hex_run 12 r8 = Some rest"
    unfolding key_body_def by (auto split: option.splits)
  from hex_run_Some[OF h(1)] obtain g1 where g1: "cs = g1 @ r1" "is_group 8 g1" by blast
  from hex_run_Some[OF h(3)] obtain g2 where g2: "r2 = g2 @ r3" "is_group 4 g2" by blast
  from hex_run_Some[OF h(5)] obtain g3 where g3: "r4 = g3 @ r5" "is_group 4 g3" by blast
  from hex_run_Some[OF h(7)] obtain g4 where g4: "r6 = g4 @ r7" "is_group 4 g4" by blast
  from hex_run_Some[OF h(9)] obtain g5 where g5: "r8 = g5 @ rest" "is_group 12 g5" by blast
  have "cs = (g1 @ ''-'' @ g2 @ ''-'' @ g3 @ ''-'' @ g4 @ ''-'' @ g5) @ rest"
    using g1(1) g2(1) g3(1) g4(1) g5(1) dash_Some[OF h(2)] dash_Some[OF h(4)]
      dash_Some[OF h(6)] dash_Some[OF h(8)] by simp
  moreover have "key_shape (g1 @ ''-'' @ g2 @ ''-'' @ g3 @ ''-'' @ g4 @ ''-'' @ g5)"
    using g1(2) g2(2) g3(2) g4(2) g5(2) by (rule groups_key_shape)
  ultimately show ?thesis by blast
qed

lemma key_shape_length: "key_shape m \<Longrightarrow> length m = 36"
  by (simp add: key_shape_def)

lemma match_at_Some: "match_at prev cs = Some m \<Longrightarrow> key_shape m"
proof -
  assume a: "match_at prev cs = Some m"
  then obtain rest where kb: "key_body cs = Some rest"
    and m: "m = take (length cs - length rest) cs"
    unfolding match_at_def by (auto simp: Let_def split: if_splits option.splits)
  from key_body_Some[OF kb] obtain m' where m': "cs = m' @ rest" "key_shape m'" by blast
  then have "m = m'" using m by simp
  then show ?thesis using m' by simp
qed

lemma find_all_shape: "m \<in> set (find_all prev k cs) \<Longrightarrow> key_shape m"
  by (induction prev k cs rule: find_all.induct)
     (auto split: option.splits dest: match_at_Some)

lemma FindAll_shape: "m \<in> set (FindAllStringSubmatch data) \<Longrightarrow> key_shape m"
  unfolding FindAllStringSubmatch_def by (rule find_all_shape)

subsection \<open>What FromData returns\<close>

lemma exa_result_Inr:
  assumes "8 \<le> length token"
  shows "\<exists>r. exa_result client verify token = Inr r \<and> Raw r = token \<and>
           Redacted r = take 8 token @ ''...'' \<and> DetectorType r = DetectorType_Exa \<and>
           (\<not> verify \<longrightarrow> \<not> Verified r \<and> verificationError r = None) \<and>
           (verify \<longrightarrow> (Verified r, verificationError r) = verifyToken client token)"
  using assms by (auto simp: exa_result_def slice_to_def Let_def split: prod.splits)

lemma exa_results_Inr:
  assumes "\<forall>t \<in> set tokens. 8 \<le> length t"
  shows "\<exists>rs. exa_results client verify tokens = Inr rs \<and> map Raw rs = tokens \<and>
           (\<forall>r \<in> set rs. Redacted r = take 8 (Raw r) @ ''...'' \<and>
               DetectorType r = DetectorType_Exa \<and>
               (\<not> verify \<longrightarrow> \<not> Verified r \<and> verificationError r = None) \<and>
               (verify \<longrightarrow> (Verified r, verificationError r) = verifyToken client (Raw r)))"
  using assms
proof (induction tokens)
  case Nil
  then show ?case by simp
next
  case (Cons t ts)
  then have t: "8 \<le> length t" and ts: "\<forall>t \<in> set ts. 8 \<le> length t" by auto
  from exa_result_Inr[OF t, of client verify] obtain r where r:
    "exa_result client verify t = Inr r" "Raw r = t" "Redacted r = take 8 t @ ''...''"
    "DetectorType r = DetectorType_Exa"
    "\<not> verify \<longrightarrow> \<not> Verified r \<and> verificationError r = None"
    "verify \<longrightarrow> (Verified r, verificationError r) = verifyToken client t"
    by blast
  from Cons.IH[OF ts] obtain rs where rs:
    "exa_results client verify ts = Inr rs" "map Raw rs = ts"
    "\<forall>r \<in> set rs. Redacted r = take 8 (Raw r) @ ''...'' \<and>
               DetectorType r = DetectorType_Exa \<and>
               (\<not> verify \<longrightarrow> \<not> Verified r \<and> verificationError r = None) \<and>
               (verify \<longrightarrow> (Verified r, verificationError r) = verifyToken client (Raw r))"
    by blast
  show ?case using r rs by simp
qed

lemma uniqueMatches_shape:
  "t \<in> set (range_map order (uniqueMatches data)) \<Longrightarrow> key_shape t"
  by (simp add: set_range_map uniqueMatches_def FindAll_shape)

lemma FromData_Inr:
  "\<exists>results. FromData client order verify data = Inr results \<and>
      map Raw results = range_map order (uniqueMatches data) \<and>
      (\<forall>r \<in> set results. Redacted r = take 8 (Raw r) @ ''...'' \<and>
               DetectorType r = DetectorType_Exa \<and>
               (\<not> verify \<longrightarrow> \<not> Verified r \<and> verificationError r = None) \<and>
               (verify \<longrightarrow> (Verified r, verificationError r) = verifyToken client (Raw r)))"
  unfolding FromData_def
  by (rule exa_results_Inr) (auto dest!: uniqueMatches_shape key_shape_length)

text \<open>
  Claim C3. For every input text, network, iteration order and verify flag, \<open>FromData\<close>
  returns (it does not panic) exactly one Result per distinct matched literal: the raw
  values of the Results are pairwise distinct, they are exactly the literals the pattern
  matches, and the number of Results is the number of distinct matched literals, however
  often a literal is repeated.
\<close>

theorem FromData_one_per_distinct_literal:
  "\<exists>results. FromData client order verify data = Inr results \<and>
      length results = card (set (FindAllStringSubmatch data)) \<and>
      distinct (map Raw results) \<and>
      set (map Raw results) = set (FindAllStringSubmatch data)"
proof -
  from FromData_Inr[of client order verify data] obtain results where
    r: "FromData client order verify data = Inr results"
    and raw: "map Raw results = range_map order (uniqueMatches data)" by blast
  have ms: "mset (map Raw results) = mset (remdups (FindAllStringSubmatch data))"
    using raw by (simp add: mset_range_map uniqueMatches_def)
  have d: "distinct (map Raw results)"
    using ms mset_eq_imp_distinct_iff distinct_remdups by blast
  have s: "set (map Raw results) = set (FindAllStringSubmatch data)"
    using mset_eq_setD[OF ms] by simp
  have "length (map Raw results) = length (remdups (FindAllStringSubmatch data))"
    using mset_eq_length[OF ms] .
  then have l: "length results = card (set (FindAllStringSubmatch data))"
    by (simp add: length_remdups_card_conv)
  show ?thesis using r l d s by blast
qed

lemma sample_matches:
  "FindAllStringSubmatch sample_data =
     [''12345678-abcd-abcd-abcd-123456789abc'', ''12345678-abcd-abcd-abcd-123456789abc'',
      ''0fedcba9-0000-1111-2222-333344445555'']"
  by code_simp

theorem FromData_one_per_distinct_literal_witness:
  "\<exists>results. FromData (mock_client 200 :: unit net) [1] True sample_data = Inr results \<and>
      length results = 2"
proof -
  have "card (set (FindAllStringSubmatch sample_data)) = 2"
    by (simp add: sample_matches)
  then show ?thesis
    using FromData_one_per_distinct_literal
      [of "mock_client 200 :: unit net" "[1]" True sample_data]
    by auto
qed

text \<open>
  Claim C10. Every literal the key pattern matches in any input is exactly 36 characters
  long and has the 8-4-4-4-12 shape, so the slice \<open>token[:8]\<close> is in bounds (it returns
  the first 8 characters and does not panic). \<open>FromData\<close> therefore never panics, and the
  redacted form of each Result is the first 8 characters of its raw literal followed by
  \<open>...\<close>: a function of the raw literal alone, whatever the network, the iteration
  order and the verify flag.
\<close>

theorem exa_match_length_and_redaction:
  "(\<forall>m \<in> set (FindAllStringSubmatch data).
      length m = 36 \<and> key_shape m \<and> slice_to m 8 = Inr (take 8 m)) \<and>
   (\<exists>results. FromData client order verify data = Inr results \<and>
      (\<forall>r \<in> set results.
         length (Raw r) = 36 \<and> key_shape (Raw r) \<and> Redacted r = take 8 (Raw r) @ ''...''))"
proof -
  have a: "\<forall>m \<in> set (FindAllStringSubmatch data).
      length m = 36 \<and> key_shape m \<and> slice_to m 8 = Inr (take 8 m)"
    using FindAll_shape key_shape_length by (fastforce simp: slice_to_def)
  from FromData_Inr[of client order verify data] obtain results where
    r: "FromData client order verify data = Inr results"
    and raw: "map Raw results = range_map order (uniqueMatches data)"
    and red: "\<forall>r \<in> set results. Redacted r = take 8 (Raw r) @ ''...''" by blast
  have "\<forall>r \<in> set results. key_shape (Raw r)"
  proof
    fix x assume "x \<in> set results"
    then have "Raw x \<in> set (map Raw results)" by simp
    then show "key_shape (Raw x)" using raw uniqueMatches_shape by simp
  qed
  then show ?thesis using a r red key_shape_length by blast
qed

theorem exa_match_length_and_redaction_witness:
  "length ''0fedcba9-0000-1111-2222-333344445555'' = 36 \<and>
   slice_to ''0fedcba9-0000-1111-2222-333344445555'' 8 = Inr ''0fedcba9'' \<and>
   (\<exists>results. FromData (mock_client 200 :: unit net) [] False sample_data = Inr results)"
proof -
  have m: "''0fedcba9-0000-1111-2222-333344445555'' \<in> set (FindAllStringSubmatch sample_data)"
    by (simp add: sample_matches)
  show ?thesis
    using exa_match_length_and_redaction
      [of sample_data "mock_client 200 :: unit net" "[]" False] m
    by fastforce
qed

subsection \<open>Verification\<close>

lemma verifyToken_cases:
  "verifyToken client token =
     (case new_request client ''GET'' exa_url of
        Some err \<Rightarrow> (False, Some err)
      | None \<Rightarrow>
          (case do client (exa_request token) of
             Inl err \<Rightarrow> (False, Some err)
           | Inr c \<Rightarrow>
               if c = 200 then (True, None)
               else if c = 401 \<or> c = 403 then (False, None)
               else (False, Some (UnexpectedStatus c))))"
  by (simp add: verifyToken_def Let_def split: option.splits)

text \<open>
  Claim C2. For every candidate token and every network: \<open>verifyToken\<close> returns
  \<open>(true, nil)\<close> when the endpoint answers 200, \<open>(false, nil)\<close> when it answers 401 or
  403, and \<open>(false, err)\<close> with a non-nil error for any other status code, for a transport
  failure and for a request that could not be built. Conversely \<open>(false, nil)\<close>, the
  confirmed-invalid outcome, is returned only for an answer of 401 or 403, and
  \<open>true\<close> only for an answer of 200: a network fault is never reported as a
  confirmed-invalid secret.
\<close>

theorem verifyToken_status_policy:
  "(new_request client ''GET'' exa_url = None \<and> do client (exa_request token) = Inr 200
      \<longrightarrow> verifyToken client token = (True, None)) \<and>
   (new_request client ''GET'' exa_url = None \<and> do client (exa_request token) = Inr c \<and>
      (c = 401 \<or> c = 403) \<longrightarrow> verifyToken client token = (False, None)) \<and>
   (new_request client ''GET'' exa_url = None \<and> do client (exa_request token) = Inr c \<and>
      c \<noteq> 200 \<and> c \<noteq> 401 \<and> c \<noteq> 403
      \<longrightarrow> verifyToken client token = (False, Some (UnexpectedStatus c))) \<and>
   (new_request client ''GET'' exa_url = None \<and> do client (exa_request token) = Inl e
      \<longrightarrow> verifyToken client token = (False, Some e)) \<and>
   (new_request client ''GET'' exa_url = Some e
      \<longrightarrow> verifyToken client token = (False, Some e)) \<and>
   (verifyToken client token = (False, None)
      \<longrightarrow> new_request client ''GET'' exa_url = None \<and>
          (do client (exa_request token) = Inr 401 \<or> do client (exa_request token) = Inr 403)) \<and>
   (fst (verifyToken client token)
      \<longrightarrow> verifyToken client token = (True, None) \<and> do client (exa_request token) = Inr 200)"
proof (intro conjI impI)
  assume "new_request client ''GET'' exa_url = None \<and> do client (exa_request token) = Inr 200"
  then show "verifyToken client token = (True, None)"
    by (simp add: verifyToken_cases)
next
  assume "new_request client ''GET'' exa_url = None \<and> do client (exa_request token) = Inr c \<and>
      (c = 401 \<or> c = 403)"
  then show "verifyToken client token = (False, None)"
    by (auto simp add: verifyToken_cases)
next
  assume "new_request client ''GET'' exa_url = None \<and> do client (exa_request token) = Inr c \<and>
      c \<noteq> 200 \<and> c \<noteq> 401 \<and> c \<noteq> 403"
  then show "verifyToken client token = (False, Some (UnexpectedStatus c))"
    by (simp add: verifyToken_cases)
next
  assume "new_request client ''GET'' exa_url = None \<and> do client (exa_request token) = Inl e"
  then show "verifyToken client token = (False, Some e)"
    by (simp add: verifyToken_cases)
next
  assume "new_request client ''GET'' exa_url = Some e"
  then show "verifyToken client token = (False, Some e)"
    by (simp add: verifyToken_cases)
next
  assume a: "verifyToken client token = (False, None)"
  then show "new_request client ''GET'' exa_url = None"
    by (simp add: verifyToken_cases split: option.splits)
  from a show "do client (exa_request token) = Inr 401 \<or> do client (exa_request token) = Inr 403"
    by (simp add: verifyToken_cases split: option.splits sum.splits if_splits)
next
  assume a: "fst (verifyToken client token)"
  then show "verifyToken client token = (True, None)"
    by (simp add: verifyToken_cases split: option.splits sum.splits if_splits)
  from a show "do client (exa_request token) = Inr 200"
    by (simp add: verifyToken_cases split: option.splits sum.splits if_splits)
qed

theorem verifyToken_status_policy_witness:
  "verifyToken (mock_client 200 :: unit net) ''k'' = (True, None) \<and>
   verifyToken (mock_client 401 :: unit net) ''k'' = (False, None) \<and>
   verifyToken (mock_client 403 :: unit net) ''k'' = (False, None) \<and>
   verifyToken (mock_client 500 :: unit net) ''k'' = (False, Some (UnexpectedStatus 500)) \<and>
   verifyToken (failing_client ''timeout'' :: unit net) ''k''
     = (False, Some (TransportError ''timeout''))"
proof (intro conjI)
  show "verifyToken (mock_client 200 :: unit net) ''k'' = (True, None)"
    by (rule verifyToken_status_policy [THEN conjunct1, THEN mp])
       (simp add: mock_client_def)
  show "verifyToken (mock_client 401 :: unit net) ''k'' = (False, None)"
    by (rule verifyToken_status_policy
              [of _ _ 401, THEN conjunct2, THEN conjunct1, THEN mp])
       (simp add: mock_client_def)
  show "verifyToken (mock_client 403 :: unit net) ''k'' = (False, None)"
    by (rule verifyToken_status_policy
              [of _ _ 403, THEN conjunct2, THEN conjunct1, THEN mp])
       (simp add: mock_client_def)
  show "verifyToken (mock_client 500 :: unit net) ''k''
          = (False, Some (UnexpectedStatus 500))"
    by (rule verifyToken_status_policy
              [of _ _ 500, THEN conjunct2, THEN conjunct2, THEN conjunct1, THEN mp])
       (simp add: mock_client_def)
  show "verifyToken (failing_client ''timeout'' :: unit net) ''k''
          = (False, Some (TransportError ''timeout''))"
    by (rule verifyToken_status_policy
              [THEN conjunct2, THEN conjunct2, THEN conjunct2, THEN conjunct1, THEN mp])
       (simp add: failing_client_def)
qed

section \<open>Properties of the API server\<close>

subsection \<open>The webhook\<close>

lemma sendWebhook_cases:
  "sendWebhook c now webhookURL scanID s =
     (if webhookURL = [] then Inr s
      else if map_of (scans s) scanID = None then Inl NilDereference
      else if new_request c ''POST'' webhookURL \<noteq> None then Inr s
      else Inr (s\<lparr>posted := posted s @ [webhook_request webhookURL]\<rparr>))"
  by (auto simp: sendWebhook_def Let_def split: option.splits sum.splits)

lemma job_posted [simp]: "job (s\<lparr>posted := x\<rparr>) = job s"
  by (rule ext) (simp add: job_def)

lemma sample_submitted_eq:
  "sample_submitted =
     \<lparr>heap = [\<lparr>ScanID = ''scan-1'', Status = ''pending'',
                scan_RepoURL = ''https://example/repo.git'', StartedAt = ''t0'',
                CompletedAt = [], TotalSecrets = 0, VerifiedCount = 0, Unverified = 0,
                Secrets = [], Error = []\<rparr>],
      scans = [(''scan-1'', 0)], posted = []\<rparr>"
  by (simp add: sample_submitted_def HandleScan_def sample_request_def sample_scan_def
      NewServer_def Let_def)

lemma sample_completed:
  "performScan sample_env ''scan-1'' sample_scan sample_submitted =
     Inr \<lparr>heap = [\<lparr>ScanID = ''scan-1'', Status = ''completed'',
                scan_RepoURL = ''https://example/repo.git'', StartedAt = ''t0'',
                CompletedAt = ''t1'', TotalSecrets = 0, VerifiedCount = 0, Unverified = 0,
                Secrets = [], Error = []\<rparr>],
      scans = [(''scan-1'', 0)], posted = [webhook_request ''https://hook.example/cb'']\<rparr>"
  by (simp add: sample_submitted_eq performScan_def mark_running_def store_def sample_env_def
      complete_scan_def sendWebhook_cases sample_scan_def mock_client_def)

text \<open>
  Claim C1. For a completed or failed job with a non-empty webhook URL the dispatcher is
  to issue one POST whose body is the JSON envelope \<open>{event, scan_result, timestamp}\<close>
  of the job's terminal snapshot. On the sample run (a request with a webhook, accepted
  and scanned to completion) the code does issue exactly one POST to the URL, but its body
  is nil: \<open>http.NewRequest\<close> is called with a nil body and the marshalled envelope
  \<open>jsonData\<close> is never used. The body is therefore not the envelope.
\<close>

theorem sendWebhook_posts_nil_body:
  "\<exists>s j. performScan sample_env ''scan-1'' sample_scan sample_submitted = Inr s \<and>
      job s ''scan-1'' = Some j \<and> Status j = ''completed'' \<and>
      map req_url (posted s) = [''https://hook.example/cb''] \<and>
      map req_method (posted s) = [''POST''] \<and>
      map req_body (posted s) = [None] \<and>
      map req_body (posted s) \<noteq> [Some (WebhookPayload_json (webhook_payload ''t2'' j))]"
  by (simp add: sample_completed job_def webhook_request_def)

text \<open>
  Claim C9. \<open>sendWebhook\<close> with an empty webhook URL returns with the state as it was.
  With any URL, when the job is in the registry it returns (no panic), and whenever it
  returns, the objects, the registry and hence every job record are as before; the only
  change it can make is one more entry in the log of posted requests, so a delivery is
  attempted at most once (no retry). A request that cannot be built leaves the state as
  it was; a transport error and a response of any status code, 2xx or not, are both
  dropped: nothing but the log entry of the one attempt distinguishes the state after
  from the state before.
\<close>

theorem sendWebhook_frame:
  "(webhookURL = [] \<longrightarrow> sendWebhook c now webhookURL scanID s = Inr s) \<and>
   (map_of (scans s) scanID \<noteq> None \<longrightarrow> (\<exists>s'. sendWebhook c now webhookURL scanID s = Inr s')) \<and>
   (\<forall>s'. sendWebhook c now webhookURL scanID s = Inr s' \<longrightarrow>
      heap s' = heap s \<and> scans s' = scans s \<and> job s' = job s \<and>
      (posted s' = posted s \<or> posted s' = posted s @ [webhook_request webhookURL])) \<and>
   (map_of (scans s) scanID \<noteq> None \<and> new_request c ''POST'' webhookURL \<noteq> None
      \<longrightarrow> sendWebhook c now webhookURL scanID s = Inr s) \<and>
   (webhookURL \<noteq> [] \<and> map_of (scans s) scanID \<noteq> None \<and>
    new_request c ''POST'' webhookURL = None \<and>
    (do c (webhook_request webhookURL) = Inl e \<or> do c (webhook_request webhookURL) = Inr st)
      \<longrightarrow> sendWebhook c now webhookURL scanID s
            = Inr (s\<lparr>posted := posted s @ [webhook_request webhookURL]\<rparr>))"
proof (intro conjI impI allI)
  assume "webhookURL = []"
  then show "sendWebhook c now webhookURL scanID s = Inr s"
    by (simp add: sendWebhook_cases)
next
  assume "map_of (scans s) scanID \<noteq> None"
  then show "\<exists>s'. sendWebhook c now webhookURL scanID s = Inr s'"
    by (auto simp: sendWebhook_cases)
next
  fix s' assume a: "sendWebhook c now webhookURL scanID s = Inr s'"
  from a show "heap s' = heap s"
    by (auto simp: sendWebhook_cases split: if_splits)
  from a show "scans s' = scans s"
    by (auto simp: sendWebhook_cases split: if_splits)
  from a show "job s' = job s"
    by (auto simp: sendWebhook_cases split: if_splits)
  from a show "posted s' = posted s \<or> posted s' = posted s @ [webhook_request webhookURL]"
    by (auto simp: sendWebhook_cases split: if_splits)
next
  assume "map_of (scans s) scanID \<noteq> None \<and> new_request c ''POST'' webhookURL \<noteq> None"
  then show "sendWebhook c now webhookURL scanID s = Inr s"
    by (auto simp: sendWebhook_cases)
next
  assume "webhookURL \<noteq> [] \<and> map_of (scans s) scanID \<noteq> None \<and>
    new_request c ''POST'' webhookURL = None \<and>
    (do c (webhook_request webhookURL) = Inl e \<or> do c (webhook_request webhookURL) = Inr st)"
  then show "sendWebhook c now webhookURL scanID s
            = Inr (s\<lparr>posted := posted s @ [webhook_request webhookURL]\<rparr>)"
    by (simp add: sendWebhook_cases)
qed

theorem sendWebhook_frame_witness:
  "sendWebhook (failing_client ''refused'') ''t2'' ''https://hook.example/cb'' ''scan-1''
      sample_submitted
     = Inr (sample_submitted\<lparr>posted := [webhook_request ''https://hook.example/cb'']\<rparr>) \<and>
   sendWebhook (mock_client 500) ''t2'' [] ''scan-1'' sample_submitted = Inr sample_submitted"
proof (intro conjI)
  have "sendWebhook (failing_client ''refused'') ''t2'' ''https://hook.example/cb'' ''scan-1''
      sample_submitted
     = Inr (sample_submitted\<lparr>posted := posted sample_submitted @ [webhook_request ''https://hook.example/cb'']\<rparr>)"
    by (rule sendWebhook_frame [of _ _ _ _ _ "TransportError ''refused''" 0,
          THEN conjunct2, THEN conjunct2, THEN conjunct2, THEN conjunct2, THEN mp])
       (simp add: sample_submitted_eq failing_client_def)
  then show "sendWebhook (failing_client ''refused'') ''t2'' ''https://hook.example/cb'' ''scan-1''
      sample_submitted
     = Inr (sample_submitted\<lparr>posted := [webhook_request ''https://hook.example/cb'']\<rparr>)"
    by (simp add: sample_submitted_eq)
  show "sendWebhook (mock_client 500) ''t2'' [] ''scan-1'' sample_submitted = Inr sample_submitted"
    by (rule sendWebhook_frame [THEN conjunct1, THEN mp]) simp
qed

subsection \<open>Status and list\<close>

lemma job_in_list_scans:
  assumes "job s scanID = Some j"
  shows "j \<in> set (list_scans order s)"
proof -
  from assms obtain p where p: "map_of (scans s) scanID = Some p" and j: "j = heap s ! p"
    by (auto simp: job_def)
  from p have "(scanID, p) \<in> set (range_map order (scans s))"
    by (simp add: set_range_map map_of_SomeD)
  then have "(\<lambda>(scanID, scan). heap s ! scan) (scanID, p) \<in> set (list_scans order s)"
    unfolding list_scans_def set_map by (rule imageI)
  then show ?thesis using j by simp
qed

lemma mset_list_scans:
  "mset (list_scans order s) = mset (map (\<lambda>(scanID, scan). heap s ! scan) (scans s))"
  by (simp add: list_scans_def mset_range_map)

text \<open>
  Claim C8, as stated, at the empty identifier. The empty string is not in the registry
  of a new server, and a status request for it (a missing or empty \<open>scan_id\<close>
  parameter) is answered with 400, "scan_id parameter is required", not with 404.
\<close>

theorem GetStatus_empty_id_is_400:
  "r_method \<lparr>r_method = ''GET'', r_body = Inl [], r_query = [(''scan_id'', [])]\<rparr> = ''GET'' \<and>
   map_of (scans NewServer) [] = None \<and>
   code (fst (HandleGetScan \<lparr>r_method = ''GET'', r_body = Inl [], r_query = [(''scan_id'', [])]\<rparr>
                NewServer)) = 400 \<and>
   code (fst (HandleGetScan \<lparr>r_method = ''GET'', r_body = Inl [], r_query = [(''scan_id'', [])]\<rparr>
                NewServer)) \<noteq> 404"
  by (simp add: HandleGetScan_def NewServer_def query_get_def http_Error_def)

text \<open>
  Claim C8, amended. A status request (GET) for an identifier that is not in the registry
  changes no state and fails with 404 when the identifier is non-empty, with 400 when it
  is empty or missing. A list request (GET) changes no state and replies with the jobs of
  all registry entries, each entry once, in the order of the map iteration, and with
  \<open>total\<close> the number of jobs it returns, which is the number of registry entries;
  every job a status request can see is among them. On an empty registry the reply is
  the empty sequence with \<open>total = 0\<close>.
\<close>

theorem GetStatus_unknown_and_List:
  assumes "r_method r = ''GET''"
  shows "(map_of (scans s) (query_get (r_query r) ''scan_id'') = None \<longrightarrow>
            HandleGetScan r s =
              (if query_get (r_query r) ''scan_id'' = []
               then http_Error ''scan_id parameter is required'' 400
               else http_Error ''Scan not found'' 404, s)) \<and>
         HandleListScans order r s =
           (json_reply 200
              (JObject [(''scans'', JArray (map ScanResult_json (list_scans order s))),
                        (''total'', JInt (int (length (list_scans order s))))]), s) \<and>
         length (list_scans order s) = length (scans s) \<and>
         mset (list_scans order s) = mset (map (\<lambda>(scanID, scan). heap s ! scan) (scans s)) \<and>
         (\<forall>scanID j. job s scanID = Some j \<longrightarrow> j \<in> set (list_scans order s)) \<and>
         (scans s = [] \<longrightarrow>
            HandleListScans order r s =
              (json_reply 200 (JObject [(''scans'', JArray []), (''total'', JInt 0)]), s))"
proof (intro conjI impI allI)
  assume "map_of (scans s) (query_get (r_query r) ''scan_id'') = None"
  then show "HandleGetScan r s =
              (if query_get (r_query r) ''scan_id'' = []
               then http_Error ''scan_id parameter is required'' 400
               else http_Error ''Scan not found'' 404, s)"
    using assms by (simp add: HandleGetScan_def Let_def)
next
  show "HandleListScans order r s =
           (json_reply 200
              (JObject [(''scans'', JArray (map ScanResult_json (list_scans order s))),
                        (''total'', JInt (int (length (list_scans order s))))]), s)"
    using assms by (simp add: HandleListScans_def Let_def)
next
  show "length (list_scans order s) = length (scans s)"
    by (simp add: list_scans_def length_range_map)
next
  show "mset (list_scans order s) = mset (map (\<lambda>(scanID, scan). heap s ! scan) (scans s))"
    by (rule mset_list_scans)
next
  fix scanID j assume "job s scanID = Some j"
  then show "j \<in> set (list_scans order s)" by (rule job_in_list_scans)
next
  assume "scans s = []"
  then show "HandleListScans order r s =
              (json_reply 200 (JObject [(''scans'', JArray []), (''total'', JInt 0)]), s)"
    using assms by (simp add: HandleListScans_def Let_def list_scans_def)
qed

theorem GetStatus_unknown_and_List_witness:
  "HandleGetScan (status_request ''nope'') sample_submitted
     = (http_Error ''Scan not found'' 404, sample_submitted) \<and>
   HandleListScans [] (status_request []) NewServer
     = (json_reply 200 (JObject [(''scans'', JArray []), (''total'', JInt 0)]), NewServer) \<and>
   length (list_scans [3] sample_submitted) = 1"
proof (intro conjI)
  have g: "r_method (status_request ''nope'') = ''GET''" by (simp add: status_request_def)
  have n: "map_of (scans sample_submitted) (query_get (r_query (status_request ''nope'')) ''scan_id'') = None"
    by (simp add: sample_submitted_eq status_request_def query_get_def)
  have q: "query_get (r_query (status_request ''nope'')) ''scan_id'' \<noteq> []"
    by (simp add: status_request_def query_get_def)
  show "HandleGetScan (status_request ''nope'') sample_submitted
     = (http_Error ''Scan not found'' 404, sample_submitted)"
    using GetStatus_unknown_and_List [OF g, of sample_submitted "[]", THEN conjunct1] n q
    by simp
  have g2: "r_method (status_request []) = ''GET''" by (simp add: status_request_def)
  have e: "scans NewServer = []" by (simp add: NewServer_def)
  show "HandleListScans [] (status_request []) NewServer
     = (json_reply 200 (JObject [(''scans'', JArray []), (''total'', JInt 0)]), NewServer)"
    using GetStatus_unknown_and_List [OF g2, of NewServer "[]"] e by blast
  show "length (list_scans [3] sample_submitted) = 1"
    using GetStatus_unknown_and_List [OF g, of sample_submitted "[3]"]
    by (simp add: sample_submitted_eq)
qed

subsection \<open>Basic facts about the server\<close>

lemma Status_count_secrets [simp]: "Status (count_secrets secrets r) = Status r"
  by (induction secrets r rule: count_secrets.induct) simp_all

lemma scans_store [simp]: "scans (store p f s) = scans s"
  by (simp add: store_def)

lemma posted_store [simp]: "posted (store p f s) = posted s"
  by (simp add: store_def)

lemma heap_store: "heap (store p f s) = (heap s)[p := f (heap s ! p)]"
  by (simp add: store_def)

lemma update_fresh: "map_of al k = None \<Longrightarrow> AList.update k v al = al @ [(k, v)]"
  by (induction al) (auto split: if_splits)

lemma sendWebhook_ok:
  "map_of (scans s) scanID = Some p \<Longrightarrow>
     \<exists>s'. sendWebhook c now webhookURL scanID s = Inr s' \<and>
          heap s' = heap s \<and> scans s' = scans s"
  by (auto simp: sendWebhook_cases)

lemma transition_not_terminal: "terminal a \<Longrightarrow> \<not> transition a b"
  by (auto simp: transition_def terminal_def)

lemma HandleScan_reject:
  assumes "r_method r \<noteq> ''POST'' \<or> (\<exists>err. r_body r = Inl err) \<or>
           (\<exists>req. r_body r = Inr req \<and> RepoURL req = [])"
  shows "snd (HandleScan uuid now r s) = (s, None)"
  using assms by (auto simp: HandleScan_def)


lemma HandleGetScan_state [simp]: "snd (HandleGetScan r s) = s"
  by (simp add: HandleGetScan_def Let_def split: option.splits)

lemma HandleListScans_state [simp]: "snd (HandleListScans order r s) = s"
  by (simp add: HandleListScans_def Let_def)



lemma HandleGetScan_job:
  "HandleGetScan (status_request scanID) s =
     ((if scanID = [] then http_Error ''scan_id parameter is required'' 400
       else case job s scanID of
              None \<Rightarrow> http_Error ''Scan not found'' 404
            | Some j \<Rightarrow> json_reply 200 (ScanResult_json j)), s)"
  by (simp add: HandleGetScan_def status_request_def query_get_def job_def Let_def
      split: option.splits)


lemma consume_eq: "consume rs acc = acc @ map secret_of rs"
  by (induction rs acc rule: consume.induct) simp_all

lemma secret_of_Raw [simp]: "s_Raw (secret_of r) = []"
  by (simp add: secret_of_def Let_def split: option.splits)

lemma secret_of_Verified [simp]: "s_Verified (secret_of r) = Verified r"
  by (simp add: secret_of_def Let_def split: option.splits)

lemma secret_of_scrub [simp]: "secret_of (r\<lparr>Raw := x\<rparr>) = secret_of r"
  by (simp add: secret_of_def)

lemma list_all_update: "list_all P xs \<Longrightarrow> P x \<Longrightarrow> list_all P (xs[p := x])"
  unfolding list_all_iff using set_update_subset_insert[of xs p x] by auto

lemma no_raw_key: "s_Raw x = [] \<Longrightarrow> ''raw'' \<notin> fst ` set (SecretResult_fields x)"
  by (simp add: SecretResult_fields_def omitempty_def)

subsection \<open>One step of a task\<close>

lemma raw_free_consume: "raw_free (consume rs [])"
  by (simp add: raw_free_def consume_eq list_all_iff)

lemma counted_step:
  assumes "counted j (take k xs)" "k < length xs"
  shows "counted (if s_Verified (xs ! k)
                  then j\<lparr>VerifiedCount := VerifiedCount j + 1\<rparr>
                  else j\<lparr>Unverified := Unverified j + 1\<rparr>) (take (Suc k) xs)"
  using assms by (simp add: counted_def take_Suc_conv_app_nth)

text \<open>What one step of a task does to the job of the task, when the task agrees with it.\<close>

lemma task_step_effect:
  assumes pc: "pc_ok (t_pc t) p (heap s ! p)"
    and look: "map_of (scans s) (t_scanID t) = Some p"
  shows "\<exists>t' s' j'. task_step lk env rs t s = Inr (t', s') \<and>
            t_scanID t' = t_scanID t \<and> t_req t' = t_req t \<and> scans s' = scans s \<and>
            heap s' = (heap s)[p := j'] \<and>
            pc_ok (t_pc t') p j' \<and>
            (Status j' = Status (heap s ! p) \<or>
             transition (Status (heap s ! p)) (Status j')) \<and>
            (settled (t_pc t) \<longrightarrow> settled (t_pc t') \<and> j' = heap s ! p) \<and>
            (posted s' = posted s \<or>
             posted s' = posted s @ [webhook_request (WebhookURL (t_req t))]) \<and>
            (rs = [] \<and> carries_none (t_pc t) \<and> zeroed (heap s ! p)
               \<longrightarrow> carries_none (t_pc t') \<and> zeroed j')"
proof -
  let ?j = "heap s ! p"
  let ?G = ?thesis
  have stay: "\<And>t'. t_scanID t' = t_scanID t \<Longrightarrow> t_req t' = t_req t \<Longrightarrow>
      task_step lk env rs t s = Inr (t', s) \<Longrightarrow> pc_ok (t_pc t') p ?j \<Longrightarrow>
      (settled (t_pc t) \<longrightarrow> settled (t_pc t')) \<Longrightarrow>
      (carries_none (t_pc t) \<longrightarrow> carries_none (t_pc t')) \<Longrightarrow> ?G"
  proof -
    fix t'
    assume a: "t_scanID t' = t_scanID t" "t_req t' = t_req t"
      "task_step lk env rs t s = Inr (t', s)" "pc_ok (t_pc t') p ?j"
      "settled (t_pc t) \<longrightarrow> settled (t_pc t')"
      "carries_none (t_pc t) \<longrightarrow> carries_none (t_pc t')"
    show ?G
      by (rule exI[of _ t'], rule exI[of _ s], rule exI[of _ ?j]) (use a in simp)
  qed
  have wr: "\<And>t' f. t_scanID t' = t_scanID t \<Longrightarrow> t_req t' = t_req t \<Longrightarrow>
      task_step lk env rs t s = Inr (t', store p f s) \<Longrightarrow> pc_ok (t_pc t') p (f ?j) \<Longrightarrow>
      (Status (f ?j) = Status ?j \<or> transition (Status ?j) (Status (f ?j))) \<Longrightarrow>
      \<not> settled (t_pc t) \<Longrightarrow>
      (rs = [] \<and> carries_none (t_pc t) \<and> zeroed ?j
         \<longrightarrow> carries_none (t_pc t') \<and> zeroed (f ?j)) \<Longrightarrow> ?G"
  proof -
    fix t' f
    assume a: "t_scanID t' = t_scanID t" "t_req t' = t_req t"
      "task_step lk env rs t s = Inr (t', store p f s)" "pc_ok (t_pc t') p (f ?j)"
      "Status (f ?j) = Status ?j \<or> transition (Status ?j) (Status (f ?j))"
      "\<not> settled (t_pc t)"
      "rs = [] \<and> carries_none (t_pc t) \<and> zeroed ?j
         \<longrightarrow> carries_none (t_pc t') \<and> zeroed (f ?j)"
    show ?G
      by (rule exI[of _ t'], rule exI[of _ "store p f s"], rule exI[of _ "f ?j"])
         (use a in \<open>simp add: heap_store\<close>)
  qed
  show ?thesis
  proof (cases "t_pc t")
    case AtStart
    show ?thesis
    proof (cases lk)
      case True
      show ?thesis
        by (rule stay[of t]) (use AtStart True pc in \<open>simp_all add: task_step_def\<close>)
    next
      case False
      show ?thesis
        by (rule wr[of "t\<lparr>t_pc := AtInit p\<rparr>" "\<lambda>r. r\<lparr>Status := ''running''\<rparr>"])
           (use AtStart False pc look in
             \<open>simp_all add: task_step_def mark_running_def transition_def zeroed_def\<close>)
    qed
  next
    case (AtInit q)
    with pc have q: "q = p" by simp
    show ?thesis
    proof (cases "init_err env")
      case None
      show ?thesis
        by (rule stay[of "t\<lparr>t_pc := AtSetSourceUnit p\<rparr>"])
           (use AtInit None pc q in \<open>simp_all add: task_step_def\<close>)
    next
      case (Some err)
      show ?thesis
      proof (cases lk)
        case True
        show ?thesis
          by (rule stay[of t]) (use AtInit Some True pc in \<open>simp_all add: task_step_def\<close>)
      next
        case False
        show ?thesis
          by (rule wr[of "t\<lparr>t_pc := Failing1 p (''Failed to initialize git source: '' @ err)\<rparr>"
                "\<lambda>r. r\<lparr>Status := ''failed''\<rparr>"])
             (use AtInit Some False pc look in
               \<open>simp_all add: task_step_def enter_failing_def transition_def terminal_def
                  zeroed_def\<close>)
      qed
    qed
  next
    case (AtSetSourceUnit q)
    with pc have q: "q = p" by simp
    show ?thesis
    proof (cases "unit_err env")
      case None
      show ?thesis
        by (rule stay[of "t\<lparr>t_pc := AtCollect p\<rparr>"])
           (use AtSetSourceUnit None pc q in \<open>simp_all add: task_step_def\<close>)
    next
      case (Some err)
      show ?thesis
      proof (cases lk)
        case True
        show ?thesis
          by (rule stay[of t])
             (use AtSetSourceUnit Some True pc in \<open>simp_all add: task_step_def\<close>)
      next
        case False
        show ?thesis
          by (rule wr[of "t\<lparr>t_pc := Failing1 p (''Failed to set source unit: '' @ err)\<rparr>"
                "\<lambda>r. r\<lparr>Status := ''failed''\<rparr>"])
             (use AtSetSourceUnit Some False pc look in
               \<open>simp_all add: task_step_def enter_failing_def transition_def terminal_def
                  zeroed_def\<close>)
      qed
    qed
  next
    case (AtCollect q)
    with pc have q: "q = p" by simp
    show ?thesis
    proof (cases lk)
      case True
      show ?thesis
        by (rule stay[of t]) (use AtCollect True pc in \<open>simp_all add: task_step_def\<close>)
    next
      case False
      show ?thesis
        by (rule wr[of "t\<lparr>t_pc := Completing1 p (consume rs [])\<rparr>"
              "\<lambda>r. r\<lparr>Status := ''completed''\<rparr>"])
           (use AtCollect False pc q raw_free_consume[of rs] in
             \<open>simp_all add: task_step_def transition_def terminal_def zeroed_def\<close>)
    qed
  next
    case (Failing1 q m)
    with pc have q: "q = p" by simp
    show ?thesis
      by (rule wr[of "t\<lparr>t_pc := Failing2 p\<rparr>" "\<lambda>r. r\<lparr>Error := m\<rparr>"])
         (use Failing1 pc q in \<open>simp_all add: task_step_def zeroed_def\<close>)
  next
    case (Failing2 q)
    with pc have q: "q = p" by simp
    show ?thesis
      by (rule wr[of "t\<lparr>t_pc := AtWebhook\<rparr>" "\<lambda>r. r\<lparr>CompletedAt := done_at env\<rparr>"])
         (use Failing2 pc q in
           \<open>simp_all add: task_step_def zeroed_def terminal_def raw_free_def counted_def\<close>)
  next
    case (Completing1 q xs)
    with pc have q: "q = p" by simp
    show ?thesis
      by (rule wr[of "t\<lparr>t_pc := Completing2 p xs\<rparr>" "\<lambda>r. r\<lparr>CompletedAt := done_at env\<rparr>"])
         (use Completing1 pc q in \<open>simp_all add: task_step_def zeroed_def\<close>)
  next
    case (Completing2 q xs)
    with pc have q: "q = p" by simp
    show ?thesis
      by (rule wr[of "t\<lparr>t_pc := Completing3 p xs\<rparr>" "\<lambda>r. r\<lparr>Secrets := xs\<rparr>"])
         (use Completing2 pc q in \<open>simp_all add: task_step_def zeroed_def\<close>)
  next
    case (Completing3 q xs)
    with pc have q: "q = p" by simp
    show ?thesis
      by (rule wr[of "t\<lparr>t_pc := Counting p xs 0\<rparr>"
            "\<lambda>r. r\<lparr>TotalSecrets := int (length xs)\<rparr>"])
         (use Completing3 pc q in \<open>simp_all add: task_step_def zeroed_def counted_def\<close>)
  next
    case (Counting q xs k)
    with pc have q: "q = p" by simp
    show ?thesis
    proof (cases "k < length xs")
      case True
      let ?f = "\<lambda>r. if s_Verified (xs ! k)
                     then r\<lparr>VerifiedCount := VerifiedCount r + 1\<rparr>
                     else r\<lparr>Unverified := Unverified r + 1\<rparr>"
      have c: "counted (?f ?j) (take (Suc k) xs)"
        using counted_step[of ?j k xs] pc Counting True by simp
      show ?thesis
        by (rule wr[of "t\<lparr>t_pc := Counting p xs (Suc k)\<rparr>" ?f])
           (use Counting pc q True c in \<open>auto simp add: task_step_def\<close>)
    next
      case False
      show ?thesis
        by (rule stay[of "t\<lparr>t_pc := AtWebhook\<rparr>"])
           (use Counting pc q False in \<open>simp_all add: task_step_def terminal_def\<close>)
    qed
  next
    case AtWebhook
    show ?thesis
    proof (cases "WebhookURL (t_req t) \<noteq> [] \<and> lk")
      case True
      show ?thesis
        by (rule stay[of t]) (use AtWebhook True pc in \<open>simp_all add: task_step_def\<close>)
    next
      case False
      from sendWebhook_ok[OF look] obtain s' where
        w: "sendWebhook (webhookClient env) (hook_at env) (WebhookURL (t_req t)) (t_scanID t) s
              = Inr s'"
        and h: "heap s' = heap s" "scans s' = scans s" by blast
      from w have po: "posted s' = posted s \<or>
          posted s' = posted s @ [webhook_request (WebhookURL (t_req t))]"
        by (auto simp: sendWebhook_cases split: if_splits)
      have ts: "task_step lk env rs t s = Inr (t\<lparr>t_pc := Finished\<rparr>, s')"
        using AtWebhook False w by (auto simp: task_step_def)
      show ?thesis
        by (rule exI[of _ "t\<lparr>t_pc := Finished\<rparr>"], rule exI[of _ s'], rule exI[of _ ?j])
           (use ts h po pc AtWebhook in simp)
    qed
  next
    case Finished
    show ?thesis
      by (rule stay[of t]) (use Finished pc in \<open>simp_all add: task_step_def\<close>)
  qed
qed


subsection \<open>The registry under the invariant\<close>

lemma inv_lookup:
  assumes "invariant \<sigma>" "i < length (tasks \<sigma>)"
  shows "map_of (scans (server \<sigma>)) (t_scanID (tasks \<sigma> ! i)) = Some i"
proof -
  let ?xs = "map t_scanID (tasks \<sigma>)"
  let ?ys = "[0..<length (tasks \<sigma>)]"
  have "map_of (zip ?xs ?ys) (?xs ! i) = Some (?ys ! i)"
    by (rule map_of_zip_nth) (use assms in \<open>simp_all add: invariant_def\<close>)
  thus ?thesis using assms by (simp add: invariant_def)
qed

lemma inv_lookup_rev:
  assumes "invariant \<sigma>" "map_of (scans (server \<sigma>)) scanID = Some p"
  shows "p < length (tasks \<sigma>) \<and> t_scanID (tasks \<sigma> ! p) = scanID"
proof -
  have "(scanID, p) \<in> set (zip (map t_scanID (tasks \<sigma>)) [0..<length (tasks \<sigma>)])"
    using assms map_of_SomeD[of "scans (server \<sigma>)" scanID p] by (simp add: invariant_def)
  thus ?thesis by (auto simp: in_set_zip)
qed

lemma inv_job:
  assumes "invariant \<sigma>"
  shows "job (server \<sigma>) scanID = Some j \<longleftrightarrow>
         (\<exists>i<length (tasks \<sigma>). t_scanID (tasks \<sigma> ! i) = scanID \<and> j = heap (server \<sigma>) ! i)"
proof
  assume "job (server \<sigma>) scanID = Some j"
  then obtain p where p: "map_of (scans (server \<sigma>)) scanID = Some p" "j = heap (server \<sigma>) ! p"
    by (auto simp: job_def)
  with inv_lookup_rev[OF assms p(1)] show
    "\<exists>i<length (tasks \<sigma>). t_scanID (tasks \<sigma> ! i) = scanID \<and> j = heap (server \<sigma>) ! i"
    by blast
next
  assume "\<exists>i<length (tasks \<sigma>). t_scanID (tasks \<sigma> ! i) = scanID \<and> j = heap (server \<sigma>) ! i"
  then obtain i where i: "i < length (tasks \<sigma>)" "t_scanID (tasks \<sigma> ! i) = scanID"
    "j = heap (server \<sigma>) ! i" by blast
  from inv_lookup[OF assms i(1)] i show "job (server \<sigma>) scanID = Some j"
    by (simp add: job_def)
qed

lemma inv_pc_ok:
  assumes "invariant \<sigma>" "i < length (tasks \<sigma>)"
  shows "pc_ok (t_pc (tasks \<sigma> ! i)) i (heap (server \<sigma>) ! i)"
  using assms by (simp add: invariant_def list_all_iff)

lemma pc_ok_raw_free: "pc_ok c p j \<Longrightarrow> raw_free (Secrets j)"
  by (cases c) (simp_all add: zeroed_def raw_free_def)



lemma keeps_refl: "keeps \<sigma> \<sigma>"
  by (simp add: keeps_def)

lemma moves_refl: "moves \<sigma> \<sigma>"
  by (auto simp: moves_def)

lemma keeps_trans:
  assumes a: "keeps \<sigma> \<sigma>1" and b: "keeps \<sigma>1 \<sigma>2"
  shows "keeps \<sigma> \<sigma>2"
  unfolding keeps_def
proof (intro conjI allI impI)
  show "length (tasks \<sigma>) \<le> length (tasks \<sigma>2)" using a b by (simp add: keeps_def)
  show "length (readers \<sigma>) \<le> length (readers \<sigma>2)" using a b by (simp add: keeps_def)
next
  fix i assume i: "i < length (tasks \<sigma>)"
  hence i1: "i < length (tasks \<sigma>1)" using a by (simp add: keeps_def)
  show "t_scanID (tasks \<sigma>2 ! i) = t_scanID (tasks \<sigma> ! i)"
    using a b i i1 by (simp add: keeps_def)
  { assume "terminal (Status (heap (server \<sigma>) ! i))"
    thus "Status (heap (server \<sigma>2) ! i) = Status (heap (server \<sigma>) ! i)"
      using a b i i1 by (simp add: keeps_def) }
  { assume "settled (t_pc (tasks \<sigma> ! i))"
    thus "settled (t_pc (tasks \<sigma>2 ! i))" "heap (server \<sigma>2) ! i = heap (server \<sigma>) ! i"
      using a b i i1 by (simp_all add: keeps_def) }
next
  fix k assume k: "k < length (readers \<sigma>)"
  hence k1: "k < length (readers \<sigma>1)" using a by (simp add: keeps_def)
  from a k have ak:
    "rd_ptr (readers \<sigma>1 ! k) = rd_ptr (readers \<sigma> ! k)"
    "rd_count (readers \<sigma> ! k) \<le> rd_count (readers \<sigma>1 ! k)"
    "1 < rd_count (readers \<sigma> ! k)
       \<longrightarrow> Status (rd_seen (readers \<sigma>1 ! k)) = Status (rd_seen (readers \<sigma> ! k))"
    "rd_ptr (readers \<sigma> ! k) < length (tasks \<sigma>) \<and>
     settled (t_pc (tasks \<sigma> ! rd_ptr (readers \<sigma> ! k))) \<and>
     in_sync (server \<sigma>) (readers \<sigma> ! k) \<longrightarrow> in_sync (server \<sigma>1) (readers \<sigma>1 ! k)"
    by (simp_all add: keeps_def)
  from b k1 have bk:
    "rd_ptr (readers \<sigma>2 ! k) = rd_ptr (readers \<sigma>1 ! k)"
    "rd_count (readers \<sigma>1 ! k) \<le> rd_count (readers \<sigma>2 ! k)"
    "1 < rd_count (readers \<sigma>1 ! k)
       \<longrightarrow> Status (rd_seen (readers \<sigma>2 ! k)) = Status (rd_seen (readers \<sigma>1 ! k))"
    "rd_ptr (readers \<sigma>1 ! k) < length (tasks \<sigma>1) \<and>
     settled (t_pc (tasks \<sigma>1 ! rd_ptr (readers \<sigma>1 ! k))) \<and>
     in_sync (server \<sigma>1) (readers \<sigma>1 ! k) \<longrightarrow> in_sync (server \<sigma>2) (readers \<sigma>2 ! k)"
    by (simp_all add: keeps_def)
  show "rd_ptr (readers \<sigma>2 ! k) = rd_ptr (readers \<sigma> ! k)" using ak bk by simp
  show "rd_count (readers \<sigma> ! k) \<le> rd_count (readers \<sigma>2 ! k)" using ak bk by simp
  { assume "1 < rd_count (readers \<sigma> ! k)"
    thus "Status (rd_seen (readers \<sigma>2 ! k)) = Status (rd_seen (readers \<sigma> ! k))"
      using ak bk by simp }
  { assume s: "rd_ptr (readers \<sigma> ! k) < length (tasks \<sigma>) \<and>
       settled (t_pc (tasks \<sigma> ! rd_ptr (readers \<sigma> ! k))) \<and>
       in_sync (server \<sigma>) (readers \<sigma> ! k)"
    let ?p = "rd_ptr (readers \<sigma> ! k)"
    from s a have "?p < length (tasks \<sigma>1)" "settled (t_pc (tasks \<sigma>1 ! ?p))"
      by (simp_all add: keeps_def)
    thus "in_sync (server \<sigma>2) (readers \<sigma>2 ! k)" using s ak bk by simp }
qed


subsection \<open>One step of a task in the system\<close>

lemma map_scanID_update:
  "t_scanID t' = t_scanID (xs ! i) \<Longrightarrow> map t_scanID (xs[i := t']) = map t_scanID xs"
  by (induction xs arbitrary: i) (auto split: nat.splits)

lemma step_Run_shape:
  assumes inv: "invariant \<sigma>" and i: "i < length (tasks \<sigma>)"
  shows "\<exists>t' s' j'.
      step (Run i env rs) \<sigma> = Inr (\<sigma>\<lparr>server := s', tasks := (tasks \<sigma>)[i := t']\<rparr>) \<and>
      t_scanID t' = t_scanID (tasks \<sigma> ! i) \<and> t_req t' = t_req (tasks \<sigma> ! i) \<and>
      scans s' = scans (server \<sigma>) \<and>
      heap s' = (heap (server \<sigma>))[i := j'] \<and>
      pc_ok (t_pc t') i j' \<and>
      (Status j' = Status (heap (server \<sigma>) ! i) \<or>
       transition (Status (heap (server \<sigma>) ! i)) (Status j')) \<and>
      (settled (t_pc (tasks \<sigma> ! i)) \<longrightarrow> settled (t_pc t') \<and> j' = heap (server \<sigma>) ! i) \<and>
      (posted s' = posted (server \<sigma>) \<or>
       posted s' = posted (server \<sigma>) @ [webhook_request (WebhookURL (t_req (tasks \<sigma> ! i)))]) \<and>
      (rs = [] \<and> carries_none (t_pc (tasks \<sigma> ! i)) \<and> zeroed (heap (server \<sigma>) ! i)
         \<longrightarrow> carries_none (t_pc t') \<and> zeroed j')"
proof -
  from task_step_effect[OF inv_pc_ok[OF inv i] inv_lookup[OF inv i], of "locked \<sigma>" env rs]
  obtain t' s' j' where ts: "task_step (locked \<sigma>) env rs (tasks \<sigma> ! i) (server \<sigma>) = Inr (t', s')"
    and rest: "t_scanID t' = t_scanID (tasks \<sigma> ! i) \<and> t_req t' = t_req (tasks \<sigma> ! i) \<and>
      scans s' = scans (server \<sigma>) \<and>
      heap s' = (heap (server \<sigma>))[i := j'] \<and>
      pc_ok (t_pc t') i j' \<and>
      (Status j' = Status (heap (server \<sigma>) ! i) \<or>
       transition (Status (heap (server \<sigma>) ! i)) (Status j')) \<and>
      (settled (t_pc (tasks \<sigma> ! i)) \<longrightarrow> settled (t_pc t') \<and> j' = heap (server \<sigma>) ! i) \<and>
      (posted s' = posted (server \<sigma>) \<or>
       posted s' = posted (server \<sigma>) @ [webhook_request (WebhookURL (t_req (tasks \<sigma> ! i)))]) \<and>
      (rs = [] \<and> carries_none (t_pc (tasks \<sigma> ! i)) \<and> zeroed (heap (server \<sigma>) ! i)
         \<longrightarrow> carries_none (t_pc t') \<and> zeroed j')"
    by blast
  have "step (Run i env rs) \<sigma> = Inr (\<sigma>\<lparr>server := s', tasks := (tasks \<sigma>)[i := t']\<rparr>)"
    using ts i by simp
  with rest show ?thesis by blast
qed

lemma step_Run_outside:
  "\<not> i < length (tasks \<sigma>) \<Longrightarrow> step (Run i env rs) \<sigma> = Inr \<sigma>"
  by simp

lemma step_Run_inv:
  assumes inv: "invariant \<sigma>"
  shows "\<exists>\<sigma>'. step (Run i env rs) \<sigma> = Inr \<sigma>' \<and> invariant \<sigma>' \<and> keeps \<sigma> \<sigma>' \<and> moves \<sigma> \<sigma>'"
proof (cases "i < length (tasks \<sigma>)")
  case False
  thus ?thesis using inv by (simp add: keeps_refl moves_refl)
next
  case i: True
  let ?s = "server \<sigma>"
  from step_Run_shape[OF inv i, of env rs] obtain t' s' j' where
    st: "step (Run i env rs) \<sigma> = Inr (\<sigma>\<lparr>server := s', tasks := (tasks \<sigma>)[i := t']\<rparr>)"
    and id: "t_scanID t' = t_scanID (tasks \<sigma> ! i)"
    and sc: "scans s' = scans ?s"
    and hp: "heap s' = (heap ?s)[i := j']"
    and pc: "pc_ok (t_pc t') i j'"
    and mv: "Status j' = Status (heap ?s ! i) \<or> transition (Status (heap ?s ! i)) (Status j')"
    and se: "settled (t_pc (tasks \<sigma> ! i)) \<longrightarrow> settled (t_pc t') \<and> j' = heap ?s ! i"
    and po: "posted s' = posted ?s \<or>
       posted s' = posted ?s @ [webhook_request (WebhookURL (t_req (tasks \<sigma> ! i)))]"
    by (elim exE conjE) (rule that)
  let ?\<sigma>' = "\<sigma>\<lparr>server := s', tasks := (tasks \<sigma>)[i := t']\<rparr>"
  have len: "length (heap ?s) = length (tasks \<sigma>)" using inv by (simp add: invariant_def)
  have tm: "terminal (Status (heap ?s ! i)) \<Longrightarrow> Status j' = Status (heap ?s ! i)"
    using mv transition_not_terminal by blast
  have nth: "\<And>k. k < length (tasks \<sigma>) \<Longrightarrow>
      heap s' ! k = (if k = i then j' else heap ?s ! k)"
    using hp len by (simp add: nth_list_update)
  have ids: "map t_scanID ((tasks \<sigma>)[i := t']) = map t_scanID (tasks \<sigma>)"
    by (rule map_scanID_update[OF id])
  have i1: "distinct (map t_scanID (tasks ?\<sigma>'))" using inv ids by (simp add: invariant_def)
  have i2: "scans (server ?\<sigma>') = zip (map t_scanID (tasks ?\<sigma>')) [0..<length (tasks ?\<sigma>')]"
    using inv ids sc by (simp add: invariant_def)
  have i3: "length (heap (server ?\<sigma>')) = length (tasks ?\<sigma>')" using hp len by simp
  have i4: "list_all (\<lambda>k. pc_ok (t_pc (tasks ?\<sigma>' ! k)) k (heap (server ?\<sigma>') ! k))
              [0..<length (tasks ?\<sigma>')]"
    unfolding list_all_iff
  proof
    fix k assume "k \<in> set [0..<length (tasks ?\<sigma>')]"
    hence k: "k < length (tasks \<sigma>)" by simp
    show "pc_ok (t_pc (tasks ?\<sigma>' ! k)) k (heap (server ?\<sigma>') ! k)"
      using inv_pc_ok[OF inv k] pc nth[OF k] k i by (auto simp: nth_list_update)
  qed
  have i5: "list_all (reader_ok (server ?\<sigma>')) (readers ?\<sigma>')"
    unfolding list_all_iff
  proof
    fix rd assume "rd \<in> set (readers ?\<sigma>')"
    hence ok: "reader_ok ?s rd" using inv by (simp add: invariant_def list_all_iff)
    hence p: "rd_ptr rd < length (tasks \<sigma>)" using len by (simp add: reader_ok_def)
    have "1 < rd_count rd \<and> terminal (Status (rd_seen rd))
            \<longrightarrow> Status (heap s' ! rd_ptr rd) = Status (rd_seen rd)"
    proof (cases "rd_ptr rd = i")
      case True
      thus ?thesis using ok nth[OF p] tm by (auto simp: reader_ok_def)
    next
      case False
      thus ?thesis using ok nth[OF p] by (simp add: reader_ok_def)
    qed
    thus "reader_ok (server ?\<sigma>') rd"
      using ok hp by (simp add: reader_ok_def)
  qed
  have i6: "list_all (\<lambda>q. req_body q = None) (posted (server ?\<sigma>'))"
    using inv po by (auto simp: invariant_def webhook_request_def)
  have inv': "invariant ?\<sigma>'"
    unfolding invariant_def using i1 i2 i3 i4 i5 i6 by blast
  have mo: "moves \<sigma> ?\<sigma>'"
    unfolding moves_def using nth mv by auto
  have ke: "keeps \<sigma> ?\<sigma>'"
    unfolding keeps_def
  proof (intro conjI allI impI)
    fix k assume k: "k < length (tasks \<sigma>)"
    show "t_scanID (tasks ?\<sigma>' ! k) = t_scanID (tasks \<sigma> ! k)"
      using id k i by (auto simp: nth_list_update)
    { assume "terminal (Status (heap (server \<sigma>) ! k))"
      thus "Status (heap (server ?\<sigma>') ! k) = Status (heap (server \<sigma>) ! k)"
        using nth[OF k] tm by auto }
    { assume "settled (t_pc (tasks \<sigma> ! k))"
      thus "settled (t_pc (tasks ?\<sigma>' ! k))" "heap (server ?\<sigma>') ! k = heap (server \<sigma>) ! k"
        using nth[OF k] se k i by (auto simp: nth_list_update) }
  next
    fix k assume k: "k < length (readers \<sigma>)"
    assume s: "rd_ptr (readers \<sigma> ! k) < length (tasks \<sigma>) \<and>
       settled (t_pc (tasks \<sigma> ! rd_ptr (readers \<sigma> ! k))) \<and>
       in_sync (server \<sigma>) (readers \<sigma> ! k)"
    let ?p = "rd_ptr (readers \<sigma> ! k)"
    have "heap s' ! ?p = heap ?s ! ?p" using nth[of ?p] s se by auto
    thus "in_sync (server ?\<sigma>') (readers ?\<sigma>' ! k)" using s by (simp add: in_sync_def)
  qed simp_all
  show ?thesis using st inv' ke mo by blast
qed


subsection \<open>Readers\<close>

lemma read_upto_0 [simp]: "read_upto 0 j = zero_ScanResult"
  by (simp add: read_upto_def)

lemma read_upto_Suc: "read_upto (Suc k) j = read_field k j (read_upto k j)"
  by (simp add: read_upto_def)


lemma reader_step_ptr [simp]: "rd_ptr (reader_step s rd) = rd_ptr rd"
  by (simp add: reader_step_def)

lemma reader_step_count: "rd_count rd \<le> rd_count (reader_step s rd)"
  by (simp add: reader_step_def)

lemma read_field_Status: "k \<noteq> 1 \<Longrightarrow> Status (read_field k obj seen) = Status seen"
  by (simp add: read_field_def)

lemma read_field_Secrets:
  "Secrets (read_field k obj seen) = (if k = 8 then Secrets obj else Secrets seen)"
  by (simp add: read_field_def)

lemma reader_step_status:
  "1 < rd_count rd \<Longrightarrow> Status (rd_seen (reader_step s rd)) = Status (rd_seen rd)"
  by (simp add: reader_step_def read_field_Status)

lemma reader_step_reads_status:
  "rd_count rd = 1 \<Longrightarrow> Status (rd_seen (reader_step s rd)) = Status (heap s ! rd_ptr rd)"
  by (simp add: reader_step_def read_field_def)

lemma reader_step_sync: "in_sync s rd \<Longrightarrow> in_sync s (reader_step s rd)"
  by (simp add: in_sync_def reader_step_def read_upto_Suc)

lemma reader_step_ok:
  assumes ok: "reader_ok s rd" and rf: "raw_free (Secrets (heap s ! rd_ptr rd))"
  shows "reader_ok s (reader_step s rd)"
proof (cases "rd_count rd < 10")
  case False
  thus ?thesis using ok by (simp add: reader_step_def)
next
  case True
  let ?c = "rd_count rd"
  let ?seen = "read_field ?c (heap s ! rd_ptr rd) (rd_seen rd)"
  have st: "reader_step s rd = rd\<lparr>rd_count := Suc ?c, rd_seen := ?seen\<rparr>"
    using True by (simp add: reader_step_def)
  have a: "raw_free (Secrets ?seen)"
    using ok rf by (simp add: read_field_Secrets reader_ok_def)
  have b: "1 < Suc ?c \<and> terminal (Status ?seen)
             \<longrightarrow> Status (heap s ! rd_ptr rd) = Status ?seen"
  proof (cases "?c = 1")
    case True
    thus ?thesis by (simp add: read_field_def)
  next
    case False
    thus ?thesis using ok by (auto simp: read_field_Status reader_ok_def)
  qed
  show ?thesis unfolding st using ok a b by (simp add: reader_ok_def)
qed

lemma step_Encode_inv:
  assumes inv: "invariant \<sigma>"
  shows "\<exists>\<sigma>'. step (Encode k) \<sigma> = Inr \<sigma>' \<and> invariant \<sigma>' \<and> keeps \<sigma> \<sigma>' \<and> moves \<sigma> \<sigma>'"
proof (cases "k < length (readers \<sigma>)")
  case False
  thus ?thesis using inv by (simp add: keeps_refl moves_refl)
next
  case k: True
  let ?s = "server \<sigma>"
  let ?rd = "readers \<sigma> ! k"
  let ?\<sigma>' = "\<sigma>\<lparr>readers := (readers \<sigma>)[k := reader_step ?s ?rd]\<rparr>"
  have st: "step (Encode k) \<sigma> = Inr ?\<sigma>'" using k by simp
  have oks: "list_all (reader_ok ?s) (readers \<sigma>)" using inv by (simp add: invariant_def)
  hence ok: "reader_ok ?s ?rd" using k by (simp add: list_all_iff)
  hence p: "rd_ptr ?rd < length (tasks \<sigma>)" using inv by (simp add: reader_ok_def invariant_def)
  have rf: "raw_free (Secrets (heap ?s ! rd_ptr ?rd))"
    using pc_ok_raw_free[OF inv_pc_ok[OF inv p]] .
  have "list_all (reader_ok ?s) ((readers \<sigma>)[k := reader_step ?s ?rd])"
    by (rule list_all_update[OF oks reader_step_ok[OF ok rf]])
  hence inv': "invariant ?\<sigma>'" using inv by (simp add: invariant_def)
  have mo: "moves \<sigma> ?\<sigma>'"
    unfolding moves_def
  proof (intro conjI allI impI)
    fix m
    assume m: "m < length (readers ?\<sigma>')"
      and c: "1 < rd_count (readers ?\<sigma>' ! m) \<and>
              (m < length (readers \<sigma>) \<longrightarrow> rd_count (readers \<sigma> ! m) \<le> 1)"
    hence mk: "m = k" using k by (auto simp: nth_list_update split: if_splits)
    hence "rd_count ?rd = 1" using c k by (auto simp: reader_step_def split: if_splits)
    thus "Status (rd_seen (readers ?\<sigma>' ! m)) =
          Status (heap (server \<sigma>) ! rd_ptr (readers ?\<sigma>' ! m))"
      using mk k reader_step_reads_status[of ?rd ?s] by simp
  qed simp
  have ke: "keeps \<sigma> ?\<sigma>'"
    unfolding keeps_def
  proof (intro conjI allI impI)
    fix m assume m: "m < length (readers \<sigma>)"
    show "rd_ptr (readers ?\<sigma>' ! m) = rd_ptr (readers \<sigma> ! m)"
      using m k by (auto simp: nth_list_update)
    show "rd_count (readers \<sigma> ! m) \<le> rd_count (readers ?\<sigma>' ! m)"
      using m k reader_step_count[of ?rd ?s] by (auto simp: nth_list_update)
    { assume "1 < rd_count (readers \<sigma> ! m)"
      thus "Status (rd_seen (readers ?\<sigma>' ! m)) = Status (rd_seen (readers \<sigma> ! m))"
        using m k reader_step_status[of ?rd ?s] by (auto simp: nth_list_update) }
    { assume "rd_ptr (readers \<sigma> ! m) < length (tasks \<sigma>) \<and>
         settled (t_pc (tasks \<sigma> ! rd_ptr (readers \<sigma> ! m))) \<and>
         in_sync (server \<sigma>) (readers \<sigma> ! m)"
      thus "in_sync (server ?\<sigma>') (readers ?\<sigma>' ! m)"
        using m k reader_step_sync[of ?s ?rd] by (auto simp: nth_list_update) }
  qed simp_all
  show ?thesis using st inv' ke mo by blast
qed

lemma add_readers:
  assumes inv: "invariant \<sigma>" and ok: "list_all (reader_ok (server \<sigma>)) rds"
    and new: "list_all (\<lambda>rd. rd_count rd = 0) rds"
  shows "invariant (\<sigma>\<lparr>readers := readers \<sigma> @ rds\<rparr>) \<and>
         keeps \<sigma> (\<sigma>\<lparr>readers := readers \<sigma> @ rds\<rparr>) \<and>
         moves \<sigma> (\<sigma>\<lparr>readers := readers \<sigma> @ rds\<rparr>)"
proof (intro conjI)
  show "invariant (\<sigma>\<lparr>readers := readers \<sigma> @ rds\<rparr>)"
    using inv ok by (simp add: invariant_def)
  show "keeps \<sigma> (\<sigma>\<lparr>readers := readers \<sigma> @ rds\<rparr>)"
    by (simp add: keeps_def nth_append)
  show "moves \<sigma> (\<sigma>\<lparr>readers := readers \<sigma> @ rds\<rparr>)"
    using new by (auto simp: moves_def nth_append list_all_iff)
qed

lemma new_reader_ok: "p < length (heap s) \<Longrightarrow> reader_ok s (new_reader p)"
  by (simp add: reader_ok_def new_reader_def zero_ScanResult_def raw_free_def)

lemma step_GetStatus_cases:
  "step (GetStatus r) \<sigma> =
     Inr (if r_method r = ''GET'' \<and> query_get (r_query r) ''scan_id'' \<noteq> [] \<and> \<not> locked \<sigma>
          then (case map_of (scans (server \<sigma>)) (query_get (r_query r) ''scan_id'') of
                  None \<Rightarrow> \<sigma>
                | Some p \<Rightarrow> \<sigma>\<lparr>readers := readers \<sigma> @ [new_reader p]\<rparr>)
          else \<sigma>)"
  by (simp add: Let_def split: option.splits)

lemma step_GetStatus_inv:
  assumes inv: "invariant \<sigma>"
  shows "\<exists>\<sigma>'. step (GetStatus r) \<sigma> = Inr \<sigma>' \<and> invariant \<sigma>' \<and> keeps \<sigma> \<sigma>' \<and> moves \<sigma> \<sigma>'"
proof (cases "r_method r = ''GET'' \<and> query_get (r_query r) ''scan_id'' \<noteq> [] \<and> \<not> locked \<sigma>")
  case False
  hence "step (GetStatus r) \<sigma> = Inr \<sigma>" unfolding step_GetStatus_cases by auto
  thus ?thesis using inv by (simp add: keeps_refl moves_refl)
next
  case c: True
  show ?thesis
  proof (cases "map_of (scans (server \<sigma>)) (query_get (r_query r) ''scan_id'')")
    case None
    hence "step (GetStatus r) \<sigma> = Inr \<sigma>" unfolding step_GetStatus_cases using c by simp
    thus ?thesis using inv by (simp add: keeps_refl moves_refl)
  next
    case (Some p)
    hence st: "step (GetStatus r) \<sigma> = Inr (\<sigma>\<lparr>readers := readers \<sigma> @ [new_reader p]\<rparr>)"
      unfolding step_GetStatus_cases using c by simp
    have "p < length (heap (server \<sigma>))"
      using inv_lookup_rev[OF inv Some] inv by (simp add: invariant_def)
    hence "list_all (reader_ok (server \<sigma>)) [new_reader p]" by (simp add: new_reader_ok)
    from add_readers[OF inv this] st show ?thesis by (simp add: new_reader_def)
  qed
qed

lemma step_ListScans_inv:
  assumes inv: "invariant \<sigma>"
  shows "\<exists>\<sigma>'. step (ListScans order r) \<sigma> = Inr \<sigma>' \<and> invariant \<sigma>' \<and> keeps \<sigma> \<sigma>' \<and> moves \<sigma> \<sigma>'"
proof (cases "r_method r = ''GET'' \<and> \<not> locked \<sigma>")
  case False
  hence "step (ListScans order r) \<sigma> = Inr \<sigma>" by auto
  thus ?thesis using inv by (simp add: keeps_refl moves_refl)
next
  case True
  let ?rds = "map (\<lambda>(scanID, scan). new_reader scan) (range_map order (scans (server \<sigma>)))"
  have st: "step (ListScans order r) \<sigma> = Inr (\<sigma>\<lparr>readers := readers \<sigma> @ ?rds\<rparr>)"
    using True by simp
  have "list_all (reader_ok (server \<sigma>)) ?rds"
    unfolding list_all_iff
  proof
    fix rd assume "rd \<in> set ?rds"
    then obtain scanID p where sp: "(scanID, p) \<in> set (scans (server \<sigma>))" "rd = new_reader p"
      by (auto simp: set_range_map)
    have "distinct (map fst (scans (server \<sigma>)))" using inv by (simp add: invariant_def)
    hence "map_of (scans (server \<sigma>)) scanID = Some p" using sp(1) by simp
    hence "p < length (heap (server \<sigma>))"
      using inv_lookup_rev[OF inv] inv by (simp add: invariant_def)
    thus "reader_ok (server \<sigma>) rd" using sp(2) by (simp add: new_reader_ok)
  qed
  moreover have "list_all (\<lambda>rd. rd_count rd = 0) ?rds"
    by (auto simp: list_all_iff new_reader_def)
  ultimately have "invariant (\<sigma>\<lparr>readers := readers \<sigma> @ ?rds\<rparr>) \<and>
      keeps \<sigma> (\<sigma>\<lparr>readers := readers \<sigma> @ ?rds\<rparr>) \<and>
      moves \<sigma> (\<sigma>\<lparr>readers := readers \<sigma> @ ?rds\<rparr>)"
    by (rule add_readers[OF inv])
  thus ?thesis unfolding st by simp
qed


subsection \<open>A submission in the system\<close>

lemma step_Submit_cases:
  "step (Submit uuid now r) \<sigma> =
     Inr (if \<not> locked \<sigma> \<and> r_method r = ''POST'' \<and>
             (\<exists>req. r_body r = Inr req \<and> RepoURL req \<noteq> [])
          then (case r_body r of
                  Inr req \<Rightarrow>
                    \<sigma>\<lparr>server := (server \<sigma>)
                           \<lparr>heap := heap (server \<sigma>) @ [new_job uuid now req],
                            scans := AList.update uuid (length (heap (server \<sigma>)))
                                       (scans (server \<sigma>))\<rparr>,
                       tasks := tasks \<sigma> @ [\<lparr>t_scanID = uuid, t_req = req, t_pc = AtStart\<rparr>]\<rparr>)
          else \<sigma>)"
  by (auto simp: HandleScan_def new_job_def Let_def split: sum.splits)

lemma step_Submit_inv:
  assumes inv: "invariant \<sigma>" and fr: "map_of (scans (server \<sigma>)) uuid = None"
  shows "\<exists>\<sigma>'. step (Submit uuid now r) \<sigma> = Inr \<sigma>' \<and> invariant \<sigma>' \<and> keeps \<sigma> \<sigma>' \<and> moves \<sigma> \<sigma>'"
proof (cases "\<not> locked \<sigma> \<and> r_method r = ''POST'' \<and>
             (\<exists>req. r_body r = Inr req \<and> RepoURL req \<noteq> [])")
  case False
  hence "step (Submit uuid now r) \<sigma> = Inr \<sigma>" unfolding step_Submit_cases by auto
  thus ?thesis using inv by (simp add: keeps_refl moves_refl)
next
  case True
  then obtain req where req: "r_body r = Inr req" "RepoURL req \<noteq> []" by blast
  let ?s = "server \<sigma>"
  let ?n = "length (tasks \<sigma>)"
  let ?ids = "map t_scanID (tasks \<sigma>)"
  let ?j = "new_job uuid now req"
  let ?s' = "?s\<lparr>heap := heap ?s @ [?j], scans := AList.update uuid (length (heap ?s)) (scans ?s)\<rparr>"
  let ?\<sigma>' = "\<sigma>\<lparr>server := ?s',
                tasks := tasks \<sigma> @ [\<lparr>t_scanID = uuid, t_req = req, t_pc = AtStart\<rparr>]\<rparr>"
  have st: "step (Submit uuid now r) \<sigma> = Inr ?\<sigma>'"
    unfolding step_Submit_cases using True req by simp
  have len: "length (heap ?s) = ?n" using inv by (simp add: invariant_def)
  have sc: "scans ?s = zip ?ids [0..<?n]" using inv by (simp add: invariant_def)
  have new: "uuid \<notin> set ?ids"
    using fr map_of_zip_is_None[of ?ids "[0..<?n]" uuid] sc by simp
  have i1: "distinct (map t_scanID (tasks ?\<sigma>'))" using inv new by (simp add: invariant_def)
  have i2: "scans (server ?\<sigma>') = zip (map t_scanID (tasks ?\<sigma>')) [0..<length (tasks ?\<sigma>')]"
    using update_fresh[OF fr, of ?n] sc len by simp
  have i3: "length (heap (server ?\<sigma>')) = length (tasks ?\<sigma>')" using len by simp
  have i4: "list_all (\<lambda>k. pc_ok (t_pc (tasks ?\<sigma>' ! k)) k (heap (server ?\<sigma>') ! k))
              [0..<length (tasks ?\<sigma>')]"
    unfolding list_all_iff
  proof
    fix k assume "k \<in> set [0..<length (tasks ?\<sigma>')]"
    hence k: "k < ?n \<or> k = ?n" by auto
    thus "pc_ok (t_pc (tasks ?\<sigma>' ! k)) k (heap (server ?\<sigma>') ! k)"
    proof
      assume "k < ?n"
      thus ?thesis using inv_pc_ok[OF inv, of k] len by (simp add: nth_append)
    next
      assume "k = ?n"
      thus ?thesis using len by (simp add: nth_append new_job_def zeroed_def)
    qed
  qed
  have i5: "list_all (reader_ok (server ?\<sigma>')) (readers ?\<sigma>')"
    using inv by (auto simp: invariant_def list_all_iff reader_ok_def nth_append)
  have i6: "list_all (\<lambda>q. req_body q = None) (posted (server ?\<sigma>'))"
    using inv by (simp add: invariant_def)
  have inv': "invariant ?\<sigma>'"
    unfolding invariant_def using i1 i2 i3 i4 i5 i6 by blast
  have mo: "moves \<sigma> ?\<sigma>'" using len by (auto simp: moves_def nth_append)
  have ke: "keeps \<sigma> ?\<sigma>'"
    using len by (simp add: keeps_def nth_append in_sync_def)
  show ?thesis using st inv' ke mo by blast
qed

subsection \<open>Runs\<close>

lemma step_inv:
  assumes "invariant \<sigma>" "fresh_event \<sigma> e"
  shows "\<exists>\<sigma>'. step e \<sigma> = Inr \<sigma>' \<and> invariant \<sigma>' \<and> keeps \<sigma> \<sigma>' \<and> moves \<sigma> \<sigma>'"
proof (cases e)
  case (Submit uuid now r)
  thus ?thesis using step_Submit_inv[of \<sigma> uuid now r] assms by simp
next
  case (GetStatus r)
  thus ?thesis using step_GetStatus_inv[OF assms(1), of r] by simp
next
  case (ListScans order r)
  thus ?thesis using step_ListScans_inv[OF assms(1), of order r] by simp
next
  case (Encode k)
  thus ?thesis using step_Encode_inv[OF assms(1), of k] by simp
next
  case (Run i env rs)
  thus ?thesis using step_Run_inv[OF assms(1), of i env rs] by simp
qed

lemma run_inv:
  assumes "invariant \<sigma>" "fresh \<sigma> es"
  shows "\<exists>\<sigma>'. run es \<sigma> = Inr \<sigma>' \<and> invariant \<sigma>' \<and> keeps \<sigma> \<sigma>'"
  using assms
proof (induction es arbitrary: \<sigma>)
  case Nil
  thus ?case by (simp add: keeps_refl)
next
  case (Cons e es)
  from Cons.prems have fe: "fresh_event \<sigma> e" by simp
  from step_inv[OF Cons.prems(1) fe] obtain \<sigma>1 where
    s1: "step e \<sigma> = Inr \<sigma>1" "invariant \<sigma>1" "keeps \<sigma> \<sigma>1" by blast
  with Cons.prems have "fresh \<sigma>1 es" by simp
  from Cons.IH[OF s1(2) this] obtain \<sigma>' where
    s2: "run es \<sigma>1 = Inr \<sigma>'" "invariant \<sigma>'" "keeps \<sigma>1 \<sigma>'" by blast
  from s1 s2 keeps_trans[OF s1(3) s2(3)] show ?case by simp
qed

lemma invariant_init: "invariant init_system"
  by (simp add: invariant_def init_system_def NewServer_def)


subsection \<open>The job state machine\<close>








subsection \<open>Submission\<close>





subsection \<open>performScan on a job\<close>




subsection \<open>Runs of the program as written\<close>


lemma fresh_event_as_written [simp]: "fresh_event \<sigma> (as_written e) = fresh_event \<sigma> e"
  by (cases e) simp_all



subsection \<open>Counters on completion\<close>






subsection \<open>Raw values\<close>

lemma task_step_scrub:
  "task_step lk env (map (\<lambda>r. r\<lparr>Raw := []\<rparr>) rs) t s = task_step lk env rs t s"
  by (cases "t_pc t") (simp_all add: task_step_def consume_eq comp_def)

lemma step_scrub: "step (scrub e) \<sigma> = step e \<sigma>"
  by (cases e) (simp_all add: task_step_scrub)

lemma run_scrub: "run (map scrub es) \<sigma> = run es \<sigma>"
  by (induction es arbitrary: \<sigma>) (simp_all add: step_scrub split: sum.splits)

lemma raw_free_key:
  "raw_free xs \<Longrightarrow> x \<in> set xs \<Longrightarrow> s_Raw x = [] \<and> ''raw'' \<notin> fst ` set (SecretResult_fields x)"
  by (simp add: raw_free_def list_all_iff no_raw_key)

text \<open>
  Claim C7. Raw secret values do not reach any payload. Two runs of the system whose
  events differ only in the raw values of the results that the scans receive end in the
  same state, so every status reply, every list reply and every posted webhook request is
  the same: no payload depends on a raw value. The \<open>SecretResult\<close> built from a Result
  has an empty \<open>raw\<close> field and its serialisation has no \<open>raw\<close> key, whatever the
  Result's raw value. In every reachable state every posted webhook request has no body,
  and every secret of every job that a status or list request can return, and every
  secret that a reply being encoded has read, has an empty \<open>raw\<close> field and serialises
  without a \<open>raw\<close> key. What is serialised is the redacted form, which for the Exa
  detector has 11 characters against the 36 of the raw value.
\<close>

theorem raw_not_serialized:
  "(map scrub es = map scrub es' \<longrightarrow> run es \<sigma> = run es' \<sigma>) \<and>
   secret_of (r\<lparr>Raw := x\<rparr>) = secret_of r \<and>
   s_Raw (secret_of r) = [] \<and>
   ''raw'' \<notin> fst ` set (SecretResult_fields (secret_of r)) \<and>
   (\<forall>\<sigma>'. fresh init_system es \<and> run es init_system = Inr \<sigma>' \<longrightarrow>
      (\<forall>q \<in> set (posted (server \<sigma>')). req_body q = None) \<and>
      (\<forall>scanID j. job (server \<sigma>') scanID = Some j \<longrightarrow>
         (\<forall>x \<in> set (Secrets j).
            s_Raw x = [] \<and> ''raw'' \<notin> fst ` set (SecretResult_fields x))) \<and>
      (\<forall>order. \<forall>j \<in> set (list_scans order (server \<sigma>')).
         \<forall>x \<in> set (Secrets j).
            s_Raw x = [] \<and> ''raw'' \<notin> fst ` set (SecretResult_fields x)) \<and>
      (\<forall>rd \<in> set (readers \<sigma>'). \<forall>x \<in> set (Secrets (rd_seen rd)).
            s_Raw x = [] \<and> ''raw'' \<notin> fst ` set (SecretResult_fields x))) \<and>
   (\<forall>results. FromData client order verify data = Inr results \<longrightarrow>
      (\<forall>r \<in> set results. length (Redacted r) = 11 \<and> length (Raw r) = 36))"
proof (intro conjI allI impI ballI)
  assume "map scrub es = map scrub es'"
  then have "run (map scrub es) \<sigma> = run (map scrub es') \<sigma>" by simp
  then show "run es \<sigma> = run es' \<sigma>" by (simp add: run_scrub)
next
  show "secret_of (r\<lparr>Raw := x\<rparr>) = secret_of r" by simp
  show "s_Raw (secret_of r) = []" by simp
  show "''raw'' \<notin> fst ` set (SecretResult_fields (secret_of r))"
    by (rule no_raw_key) simp
next
  fix \<sigma>' q
  assume a: "fresh init_system es \<and> run es init_system = Inr \<sigma>'"
    and q: "q \<in> set (posted (server \<sigma>'))"
  from run_inv[OF invariant_init, of es] a have "invariant \<sigma>'" by auto
  then show "req_body q = None" using q by (simp add: invariant_def list_all_iff)
next
  fix \<sigma>' scanID j x
  assume a: "fresh init_system es \<and> run es init_system = Inr \<sigma>'"
    and j: "job (server \<sigma>') scanID = Some j" and x: "x \<in> set (Secrets j)"
  from run_inv[OF invariant_init, of es] a have i: "invariant \<sigma>'" by auto
  from j inv_job[OF i] obtain k where k: "k < length (tasks \<sigma>')" "j = heap (server \<sigma>') ! k"
    by blast
  have "raw_free (Secrets j)" using pc_ok_raw_free[OF inv_pc_ok[OF i k(1)]] k(2) by simp
  from raw_free_key[OF this x]
  show "s_Raw x = []" "''raw'' \<notin> fst ` set (SecretResult_fields x)" by simp_all
next
  fix \<sigma>' order j x
  assume a: "fresh init_system es \<and> run es init_system = Inr \<sigma>'"
    and j: "j \<in> set (list_scans order (server \<sigma>'))" and x: "x \<in> set (Secrets j)"
  from run_inv[OF invariant_init, of es] a have i: "invariant \<sigma>'" by auto
  from j obtain scanID p where sp: "(scanID, p) \<in> set (scans (server \<sigma>'))"
    "j = heap (server \<sigma>') ! p"
    by (auto simp: list_scans_def set_range_map)
  have "distinct (map fst (scans (server \<sigma>')))" using i by (simp add: invariant_def)
  hence "map_of (scans (server \<sigma>')) scanID = Some p" using sp(1) by simp
  hence p: "p < length (tasks \<sigma>')" using inv_lookup_rev[OF i] by simp
  have "raw_free (Secrets j)" using pc_ok_raw_free[OF inv_pc_ok[OF i p]] sp(2) by simp
  from raw_free_key[OF this x]
  show "s_Raw x = []" "''raw'' \<notin> fst ` set (SecretResult_fields x)" by simp_all
next
  fix \<sigma>' rd x
  assume a: "fresh init_system es \<and> run es init_system = Inr \<sigma>'"
    and rd: "rd \<in> set (readers \<sigma>')" and x: "x \<in> set (Secrets (rd_seen rd))"
  from run_inv[OF invariant_init, of es] a have i: "invariant \<sigma>'" by auto
  hence "raw_free (Secrets (rd_seen rd))"
    using rd by (simp add: invariant_def list_all_iff reader_ok_def)
  from raw_free_key[OF this x]
  show "s_Raw x = []" "''raw'' \<notin> fst ` set (SecretResult_fields x)" by simp_all
next
  fix results r
  assume a: "FromData client order verify data = Inr results" and r: "r \<in> set results"
  from FromData_Inr[of client order verify data] a
  have raw: "map Raw results = range_map order (uniqueMatches data)"
    and red: "\<forall>r \<in> set results. Redacted r = take 8 (Raw r) @ ''...''" by auto
  have "Raw r \<in> set (map Raw results)" using r by simp
  then have "key_shape (Raw r)" using raw uniqueMatches_shape by simp
  then show l: "length (Raw r) = 36" by (rule key_shape_length)
  show "length (Redacted r) = 11" using red r l by simp
qed

theorem raw_not_serialized_witness:
  "run (secret_trace sample_results) init_system = run (secret_trace other_results) init_system \<and>
   Raw (hd sample_results) \<noteq> Raw (hd other_results)"
proof
  have "map scrub (secret_trace sample_results) = map scrub (secret_trace other_results)"
    by (simp add: secret_trace_def other_results_def comp_def)
  with raw_not_serialized[of "secret_trace sample_results" "secret_trace other_results"
      init_system]
  show "run (secret_trace sample_results) init_system
          = run (secret_trace other_results) init_system"
    by blast
  show "Raw (hd sample_results) \<noteq> Raw (hd other_results)"
    by (simp add: sample_results_def other_results_def)
qed

subsection \<open>The steps of a task and performScan\<close>

text \<open>The steps of a task of the program, taken in a row with no other task in
  between, are \<open>performScan\<close>: nine steps reach the end on every path.\<close>

lemma task_run_9:
  "task_run 9 env rs t s = task_run (Suc (Suc (Suc (Suc (Suc (Suc (Suc (Suc (Suc 0))))))))) env rs t s"
  by (simp add: eval_nat_numeral)

lemma store_store:
  "p < length (heap s) \<Longrightarrow> store p f (store p g s) = store p (\<lambda>r. f (g r)) s"
  by (simp add: store_def)

lemma performScan_task_run:
  assumes look: "map_of (scans s) scanID = Some p" and p: "p < length (heap s)"
  shows "task_run 9 env [] \<lparr>t_scanID = scanID, t_req = req, t_pc = AtStart\<rparr> s =
     (case performScan env scanID req s of
        Inl e \<Rightarrow> Inl e
      | Inr s' \<Rightarrow> Inr (\<lparr>t_scanID = scanID, t_req = req, t_pc = Finished\<rparr>, s'))"
proof (cases "init_err env")
  case (Some err)
  show ?thesis
    unfolding task_run_9 using look p Some
    by (simp add: task_step_def mark_running_def enter_failing_def performScan_def
        updateScanError_def store_store split: sum.splits)
next
  case None
  show ?thesis
  proof (cases "unit_err env")
    case (Some err)
    show ?thesis
      unfolding task_run_9 using look p None Some
      by (simp add: task_step_def mark_running_def enter_failing_def performScan_def
          updateScanError_def store_store split: sum.splits)
  next
    case unit_ok: None
    show ?thesis
      unfolding task_run_9 using look p None unit_ok
      by (simp add: task_step_def mark_running_def performScan_def
          complete_scan_def store_store split: sum.splits)
  qed
qed

end
